theory Spec2Isabelle
  imports Main "HOL-Library.Sublist"
begin

section \<open>GeoIP firewall synchronisation (proxmox\_geoip\_firewall/main.py)\<close>

text \<open>
  The script keeps three pieces of mutable state in step: the persisted files under
  \<^verbatim>\<open>/usr/local/geoip-firewall\<close>, the kernel's named address sets (ipset) and the kernel's
  INPUT chains (iptables and ip6tables). The embedding threads one record \<open>world\<close> through
  every function; each external command appends an event to \<open>trace\<close>, so that "no
  download" and "no kernel mutation" are statements about the trace. Whatever the
  operating system decides (a command is rejected, what the server answers, whether the
  database parses) is a field of the record \<open>env\<close>.
\<close>

subsection \<open>Python string operations used by the script\<close>

text \<open>
  A \<open>char\<close> is one code point below 256. \<^verbatim>\<open>str.isspace\<close> holds there of the space, of
  U+0009 to U+000D, of U+001C to U+001F, of U+0085 and of U+00A0.
\<close>

definition is_space :: "char \<Rightarrow> bool" where
  "is_space c \<longleftrightarrow>
     c \<in> set [CHR '' '', CHR 0x09, CHR 0x0A, CHR 0x0B, CHR 0x0C, CHR 0x0D,
              CHR 0x1C, CHR 0x1D, CHR 0x1E, CHR 0x1F, CHR 0x85, CHR 0xA0]"

text \<open>\<^verbatim>\<open>s.strip()\<close>\<close>

definition strip :: "string \<Rightarrow> string" where
  "strip s = rev (dropWhile is_space (rev (dropWhile is_space s)))"

text \<open>\<^verbatim>\<open>line.split()[0]\<close>; \<open>None\<close> is the IndexError of a line without any token.\<close>

definition first_token :: "string \<Rightarrow> string option" where
  "first_token s =
     (let t = dropWhile is_space s
      in if t = [] then None else Some (takeWhile (\<lambda>c. \<not> is_space c) t))"

text \<open>
  \<^verbatim>\<open>str.isdigit\<close> on one code point below 256: the ten decimal digits and the
  superscripts U+00B2, U+00B3 and U+00B9.
\<close>

definition is_digit :: "char \<Rightarrow> bool" where
  "is_digit c \<longleftrightarrow> c \<in> set ''0123456789'' \<or> c \<in> set [CHR 0xB2, CHR 0xB3, CHR 0xB9]"

text \<open>\<^verbatim>\<open>s.isdigit()\<close>: false on the empty string.\<close>

definition isdigit :: "string \<Rightarrow> bool" where
  "isdigit s \<longleftrightarrow> s \<noteq> [] \<and> list_all is_digit s"

text \<open>\<^verbatim>\<open>a in b\<close> on strings and \<^verbatim>\<open>b.startswith(a)\<close>.\<close>

definition str_in :: "string \<Rightarrow> string \<Rightarrow> bool" where
  "str_in a b \<longleftrightarrow> sublist a b"

definition startswith :: "string \<Rightarrow> string \<Rightarrow> bool" where
  "startswith b a \<longleftrightarrow> prefix a b"

text \<open>\<^verbatim>\<open>" ".join(xs)\<close>\<close>

fun join_sp :: "string list \<Rightarrow> string" where
  "join_sp [] = []"
| "join_sp [x] = x"
| "join_sp (x # y # ys) = x @ '' '' @ join_sp (y # ys)"

text \<open>Decimal numerals, as iptables prints rule positions and reads them back.\<close>

definition digit_char :: "nat \<Rightarrow> char" where
  "digit_char d = ''0123456789'' ! d"

function show_nat :: "nat \<Rightarrow> string" where
  "show_nat n = (if n < 10 then [digit_char n] else show_nat (n div 10) @ [digit_char (n mod 10)])"
  by pat_completeness auto
termination
  by (relation "measure id") auto

declare show_nat.simps [simp del]

definition digit_val :: "char \<Rightarrow> nat option" where
  "digit_val c = map_of (zip ''0123456789'' [0 ..< 10]) c"

fun parse_digits :: "nat \<Rightarrow> string \<Rightarrow> nat option" where
  "parse_digits acc [] = Some acc"
| "parse_digits acc (c # cs) =
     (case digit_val c of None \<Rightarrow> None | Some d \<Rightarrow> parse_digits (10 * acc + d) cs)"

definition parse_nat :: "string \<Rightarrow> nat option" where
  "parse_nat s = (if s = [] then None else parse_digits 0 s)"

subsection \<open>The world: persisted files, kernel state, trace\<close>

datatype family = V4 | V6

text \<open>
  A firewall rule is the argument vector the script passes after \<^verbatim>\<open>-A INPUT\<close>.
  \<open>V4\<close> is \<^verbatim>\<open>/usr/sbin/iptables\<close>, \<open>V6\<close> is \<^verbatim>\<open>/usr/sbin/ip6tables\<close>.
\<close>

type_synonym rule = "string list"

datatype kcmd =
    IpsetListNames                        \<comment> \<open>\<^verbatim>\<open>ipset list -n\<close>\<close>
  | IpsetListSet string                   \<comment> \<open>\<^verbatim>\<open>ipset list NAME -name\<close>\<close>
  | IpsetCreate string family nat         \<comment> \<open>\<^verbatim>\<open>ipset create NAME hash:net [family inet6] maxelem N -exist\<close>\<close>
  | IpsetFlush string                     \<comment> \<open>\<^verbatim>\<open>ipset flush NAME\<close>\<close>
  | IpsetRestore "(string \<times> string) list"  \<comment> \<open>\<^verbatim>\<open>ipset restore\<close>, one \<^verbatim>\<open>add NAME IP\<close> line per pair\<close>
  | IpsetDestroy string                   \<comment> \<open>\<^verbatim>\<open>ipset destroy NAME\<close>\<close>
  | IptList family                        \<comment> \<open>\<^verbatim>\<open>ip[6]tables -L INPUT -n --line-numbers\<close>\<close>
  | IptDelete family string               \<comment> \<open>\<^verbatim>\<open>ip[6]tables -D INPUT NUM\<close>\<close>
  | IptAppend family rule                 \<comment> \<open>\<^verbatim>\<open>ip[6]tables -A INPUT ...\<close>\<close>

text \<open>An event is a kernel command with its success flag, or one of the two network calls.\<close>

datatype event = Kernel kcmd bool | NetHead | NetDownload

record world =
  ipsets :: "(string \<times> string list) list"
  chain_v4 :: "rule list"
  chain_v6 :: "rule list"
  mmdb_file :: "string option"
  hash_file :: "string option"
  last_check_file :: "string option"
  ALL_COUNTRIES :: "string list"
  trace :: "event list"

datatype head_result =
    HeadOk "string option" "string option"   \<comment> \<open>the Last-Modified and Content-Length headers\<close>
  | HeadHTTPError nat
  | HeadFailed

datatype download_result =
    TransferFailed
  | DecompressFailed string    \<comment> \<open>what was written to MMDB\_FILE before gzip gave up\<close>
  | Downloaded string

datatype mmdb_data = NoData | NoCountry | NoIsoCode | IsoCode string

record env =
  kernel_rejects :: "nat \<Rightarrow> kcmd \<Rightarrow> bool"
  head_response :: head_result
  download_response :: download_result
  maxminddb_installed :: bool
  read_mmdb :: "string \<Rightarrow> (string \<times> mmdb_data) list option"
  sha256_hex :: "string \<Rightarrow> string"

datatype error = HTTPError nat | URLError | FileNotFoundError | IndexError

subsection \<open>What the kernel does with a command\<close>

definition chain :: "family \<Rightarrow> world \<Rightarrow> rule list" where
  "chain fam w = (case fam of V4 \<Rightarrow> chain_v4 w | V6 \<Rightarrow> chain_v6 w)"

definition set_chain :: "family \<Rightarrow> rule list \<Rightarrow> world \<Rightarrow> world" where
  "set_chain fam rs w = (case fam of V4 \<Rightarrow> w\<lparr>chain_v4 := rs\<rparr> | V6 \<Rightarrow> w\<lparr>chain_v6 := rs\<rparr>)"

definition set_exists :: "world \<Rightarrow> string \<Rightarrow> bool" where
  "set_exists w n \<longleftrightarrow> n \<in> set (map fst (ipsets w))"

fun add_entry :: "(string \<times> string list) list \<Rightarrow> string \<times> string \<Rightarrow> (string \<times> string list) list" where
  "add_entry sets (n, ip) = map (\<lambda>(k, v). if k = n then (k, v @ [ip]) else (k, v)) sets"

fun delete_at :: "nat \<Rightarrow> 'a list \<Rightarrow> 'a list" where
  "delete_at i xs = take i xs @ drop (Suc i) xs"

text \<open>
  The listing keeps the two properties of the real output that the script relies on: a
  rule's line starts with its position, and the line contains the rule's comment.
\<close>

definition rule_line :: "nat \<Rightarrow> rule \<Rightarrow> string" where
  "rule_line k r = show_nat k @ ''    '' @ join_sp r"

definition listing :: "rule list \<Rightarrow> string list" where
  "listing rs =
     [''Chain INPUT (policy ACCEPT)'', ''num  target     prot opt source               destination'']
     @ map (\<lambda>(i, r). rule_line (Suc i) r) (zip [0 ..< length rs] rs)
     @ ['''']"

text \<open>The lines of standard output, and the new state; \<open>None\<close> is a non-zero exit status.\<close>

fun kernel_effect :: "kcmd \<Rightarrow> world \<Rightarrow> (string list \<times> world) option" where
  "kernel_effect IpsetListNames w = Some (map fst (ipsets w) @ [''''], w)"
| "kernel_effect (IpsetListSet n) w =
     (if set_exists w n then Some ([n, ''''], w) else None)"
| "kernel_effect (IpsetCreate n fam maxelem) w =
     Some ([''''], if set_exists w n then w else w\<lparr>ipsets := ipsets w @ [(n, [])]\<rparr>)"
| "kernel_effect (IpsetFlush n) w =
     (if set_exists w n
      then Some ([''''], w\<lparr>ipsets := map (\<lambda>(k, v). if k = n then (k, []) else (k, v)) (ipsets w)\<rparr>)
      else None)"
| "kernel_effect (IpsetRestore adds) w =
     (if list_all (\<lambda>(n, ip). set_exists w n) adds
      then Some ([''''], w\<lparr>ipsets := foldl add_entry (ipsets w) adds\<rparr>)
      else None)"
| "kernel_effect (IpsetDestroy n) w =
     (if set_exists w n
      then Some ([''''], w\<lparr>ipsets := filter (\<lambda>(k, v). k \<noteq> n) (ipsets w)\<rparr>)
      else None)"
| "kernel_effect (IptList fam) w = Some (listing (chain fam w), w)"
| "kernel_effect (IptDelete fam num) w =
     (case parse_nat num of
        None \<Rightarrow> None
      | Some k \<Rightarrow>
          if 1 \<le> k \<and> k \<le> length (chain fam w)
          then Some ([''''], set_chain fam (delete_at (k - 1) (chain fam w)) w)
          else None)"
| "kernel_effect (IptAppend fam r) w = Some ([''''], set_chain fam (chain fam w @ [r]) w)"

text \<open>
  \<^verbatim>\<open>subprocess.run(..., capture_output=True)\<close>: the success flag, the lines of standard
  output (\<^verbatim>\<open>stdout.split("\n")\<close>; one empty line when the command failed) and the world
  with the event recorded. A command fails when the environment rejects it or when the
  kernel cannot carry it out.
\<close>

definition run_cmd :: "env \<Rightarrow> kcmd \<Rightarrow> world \<Rightarrow> bool \<times> string list \<times> world" where
  "run_cmd e c w =
     (if kernel_rejects e (length (trace w)) c
      then (False, [''''], w\<lparr>trace := trace w @ [Kernel c False]\<rparr>)
      else (case kernel_effect c w of
              None \<Rightarrow> (False, [''''], w\<lparr>trace := trace w @ [Kernel c False]\<rparr>)
            | Some (out, w') \<Rightarrow> (True, out, w'\<lparr>trace := trace w @ [Kernel c True]\<rparr>)))"

subsection \<open>Running several commands\<close>

text \<open>
  Consecutive \<^verbatim>\<open>subprocess.run(..., check=True)\<close> calls inside one \<^verbatim>\<open>try\<close>: the first
  failing command raises CalledProcessError, the handler returns \<open>False\<close>, and the
  commands after it are not run.
\<close>

fun run_checked :: "env \<Rightarrow> kcmd list \<Rightarrow> world \<Rightarrow> bool \<times> world" where
  "run_checked e [] w = (True, w)"
| "run_checked e (c # cs) w =
     (case run_cmd e c w of (ok, out, w') \<Rightarrow> if ok then run_checked e cs w' else (False, w'))"

text \<open>Consecutive \<^verbatim>\<open>subprocess.run\<close> calls without \<^verbatim>\<open>check\<close>: failures are ignored.\<close>

fun run_unchecked :: "env \<Rightarrow> kcmd list \<Rightarrow> world \<Rightarrow> world" where
  "run_unchecked e [] w = w"
| "run_unchecked e (c # cs) w = run_unchecked e cs (snd (snd (run_cmd e c w)))"

subsection \<open>CONFIG\<close>

definition ALLOWED_COUNTRIES :: "string list" where
  "ALLOWED_COUNTRIES = [''KR'']"

definition PRIVATE_NETWORKS_V4 :: "string list" where
  "PRIVATE_NETWORKS_V4 = [''10.0.0.0/8'', ''172.16.0.0/12'', ''192.168.0.0/16'', ''169.254.0.0/16'']"

definition PRIVATE_NETWORKS_V6 :: "string list" where
  "PRIVATE_NETWORKS_V6 = [''fc00::/7'', ''fe80::/10'']"

subsection \<open>Change detector\<close>

text \<open>\<^verbatim>\<open>response.headers.get(name, "")\<close>\<close>

definition header_get :: "string option \<Rightarrow> string" where
  "header_get h = (case h of None \<Rightarrow> [] | Some v \<Rightarrow> v)"

text \<open>\<^verbatim>\<open>f"{last_modified}|{content_length}"\<close>\<close>

definition check_info_of :: "string option \<Rightarrow> string option \<Rightarrow> string" where
  "check_info_of last_modified content_length =
     header_get last_modified @ ''|'' @ header_get content_length"

text \<open>
  \<open>Inl\<close> is the exception the function re-raises. A 404 is answered with \<open>False\<close>.
  The new metadata is written to LAST\_CHECK\_FILE before the function returns \<open>True\<close>.
\<close>

definition check_remote_file_changed :: "env \<Rightarrow> world \<Rightarrow> (error + bool) \<times> world" where
  "check_remote_file_changed e w =
     (let w1 = w\<lparr>trace := trace w @ [NetHead]\<rparr>
      in case head_response e of
           HeadOk last_modified content_length \<Rightarrow>
             (let check_info = check_info_of last_modified content_length
              in if (case last_check_file w1 of
                       None \<Rightarrow> False
                     | Some saved \<Rightarrow> strip saved = check_info)
                 then (Inr False, w1)
                 else (Inr True, w1\<lparr>last_check_file := Some check_info\<rparr>))
         | HeadHTTPError code \<Rightarrow>
             if code = 404 then (Inr False, w1) else (Inl (HTTPError code), w1)
         | HeadFailed \<Rightarrow> (Inl URLError, w1))"

text \<open>
  The file hashed is always MMDB\_FILE. Opening a missing file raises. The new hash is
  written to HASH\_FILE before the function returns \<open>True\<close>.
\<close>

definition check_file_hash_changed :: "env \<Rightarrow> world \<Rightarrow> (error + bool) \<times> world" where
  "check_file_hash_changed e w =
     (case mmdb_file w of
        None \<Rightarrow> (Inl FileNotFoundError, w)
      | Some content \<Rightarrow>
          (let current_hash = sha256_hex e content
           in if (case hash_file w of
                    None \<Rightarrow> False
                  | Some saved \<Rightarrow> strip saved = current_hash)
              then (Inr False, w)
              else (Inr True, w\<lparr>hash_file := Some current_hash\<rparr>)))"

subsection \<open>Download\<close>

definition download_dbip_database :: "env \<Rightarrow> world \<Rightarrow> bool \<times> world" where
  "download_dbip_database e w =
     (let w1 = w\<lparr>trace := trace w @ [NetDownload]\<rparr>
      in case download_response e of
           TransferFailed \<Rightarrow> (False, w1)
         | DecompressFailed partial \<Rightarrow> (False, w1\<lparr>mmdb_file := Some partial\<rparr>)
         | Downloaded content \<Rightarrow> (True, w1\<lparr>mmdb_file := Some content\<rparr>))"

subsection \<open>Geo-database reader\<close>

text \<open>
  The dictionary is an association list in insertion order, as a Python dict iterates.
\<close>

fun dict_append :: "(string \<times> string list) list \<Rightarrow> string \<Rightarrow> string \<Rightarrow> (string \<times> string list) list" where
  "dict_append [] k v = [(k, [v])]"
| "dict_append ((k', vs) # d) k v =
     (if k' = k then (k', vs @ [v]) # d else (k', vs) # dict_append d k v)"

fun add_network :: "(string \<times> string list) list \<Rightarrow> string \<times> mmdb_data \<Rightarrow> (string \<times> string list) list" where
  "add_network d (network, NoData) = d"
| "add_network d (network, NoCountry) = d"
| "add_network d (network, NoIsoCode) = d"
| "add_network d (network, IsoCode country_code) = dict_append d country_code network"

text \<open>
  The empty dictionary is returned when the import fails, and when opening or iterating
  the database raises (a missing file, a corrupt file).
\<close>

definition parse_mmdb_to_country_ipranges :: "env \<Rightarrow> world \<Rightarrow> (string \<times> string list) list" where
  "parse_mmdb_to_country_ipranges e w =
     (if \<not> maxminddb_installed e then []
      else case mmdb_file w of
             None \<Rightarrow> []
           | Some content \<Rightarrow>
               (case read_mmdb e content of
                  None \<Rightarrow> []
                | Some records \<Rightarrow> foldl add_network [] records))"

subsection \<open>Cleanup of the previous generation\<close>

text \<open>
  The body of one \<^verbatim>\<open>for line in result.stdout.split("\n")\<close> scan: the first line that
  contains the marker and whose first token is a number is the one whose rule is deleted.
\<close>

datatype scan = NotFound | Found string | ScanRaised

fun scan_lines :: "string \<Rightarrow> string list \<Rightarrow> scan" where
  "scan_lines marker [] = NotFound"
| "scan_lines marker (line # rest) =
     (if str_in marker line
      then (case first_token line of
              None \<Rightarrow> ScanRaised
            | Some line_num \<Rightarrow> if isdigit line_num then Found line_num else scan_lines marker rest)
      else scan_lines marker rest)"

text \<open>
  One \<^verbatim>\<open>while True\<close> loop of \<^verbatim>\<open>cleanup_existing_ipsets\<close>: list the chain, delete the first
  marked rule by its position, and list again; stop when no line is marked. The result
  of the deletion is not looked at: \<^verbatim>\<open>found\<close> is set whether or not the rule went away.
  The two loops of the source differ in the marker only. \<open>None\<close> is a loop that never
  ends; \<open>Some (Some err, w)\<close> is an exception raised inside the loop.
\<close>

partial_function (option) delete_marked_rules ::
  "env \<Rightarrow> family \<Rightarrow> string \<Rightarrow> world \<Rightarrow> (error option \<times> world) option" where
  "delete_marked_rules e fam marker w =
     (let result = run_cmd e (IptList fam) w
      in case scan_lines marker (fst (snd result)) of
           NotFound \<Rightarrow> Some (None, snd (snd result))
         | ScanRaised \<Rightarrow> Some (Some IndexError, snd (snd result))
         | Found line_num \<Rightarrow>
             delete_marked_rules e fam marker
               (snd (snd (run_cmd e (IptDelete fam line_num) (snd (snd result))))))"

declare delete_marked_rules.simps [code]

text \<open>The body of \<^verbatim>\<open>for iptables_cmd in [...]\<close>: the DROP rules first, then every other rule.\<close>

definition cleanup_rules :: "env \<Rightarrow> family \<Rightarrow> world \<Rightarrow> (error option \<times> world) option" where
  "cleanup_rules e fam w =
     (case delete_marked_rules e fam ''geoip-firewall-drop'' w of
        None \<Rightarrow> None
      | Some (Some err, w1) \<Rightarrow> Some (Some err, w1)
      | Some (None, w1) \<Rightarrow> delete_marked_rules e fam ''geoip-firewall'' w1)"

definition destroy_geoip_sets :: "env \<Rightarrow> world \<Rightarrow> world" where
  "destroy_geoip_sets e w =
     (let result = run_cmd e IpsetListNames w;
          geoip_sets = filter (\<lambda>s. startswith s ''country-'' \<or> startswith s ''geoip-'')
                         (fst (snd result))
      in run_unchecked e (map IpsetDestroy geoip_sets) (snd (snd result)))"

text \<open>
  Any exception inside the \<^verbatim>\<open>try\<close> skips what is left of the cleanup; the function
  returns \<open>True\<close> on every path that returns.
\<close>

definition cleanup_existing_ipsets :: "env \<Rightarrow> world \<Rightarrow> (bool \<times> world) option" where
  "cleanup_existing_ipsets e w =
     (case cleanup_rules e V4 w of
        None \<Rightarrow> None
      | Some (Some err, w1) \<Rightarrow> Some (True, w1)
      | Some (None, w1) \<Rightarrow>
          (case cleanup_rules e V6 w1 of
             None \<Rightarrow> None
           | Some (Some err, w2) \<Rightarrow> Some (True, w2)
           | Some (None, w2) \<Rightarrow> Some (True, destroy_geoip_sets e w2)))"

subsection \<open>Address-set manager\<close>

definition is_ipv6 :: "string \<Rightarrow> bool" where
  "is_ipv6 ip_range \<longleftrightarrow> CHR '':'' \<in> set ip_range"

definition set_name_v4 :: "string \<Rightarrow> string" where
  "set_name_v4 country_code = ''country-'' @ country_code"

definition set_name_v6 :: "string \<Rightarrow> string" where
  "set_name_v6 country_code = ''country-'' @ country_code @ ''-v6''"

text \<open>
  \<^verbatim>\<open>int(len(ranges) * 1.1)\<close>, written with integers: the double nearest to 1.1 lies above
  1.1 by less than \<open>10\<^sup>-\<^sup>1\<^sup>6\<close>, which does not move the integer part for any number of
  prefixes a database holds. The kernel model does not read the capacity.
\<close>

definition max_size :: "nat \<Rightarrow> nat" where
  "max_size n = (n * 11) div 10"

definition ipset_commands :: "string \<Rightarrow> family \<Rightarrow> string list \<Rightarrow> kcmd list" where
  "ipset_commands set_name fam ranges =
     [IpsetCreate set_name fam (max_size (length ranges)),
      IpsetFlush set_name,
      IpsetRestore (map (\<lambda>ip. (set_name, ip)) ranges)]"

text \<open>The body of \<^verbatim>\<open>for country_code, ip_ranges in country_ip_ranges.items()\<close>.\<close>

definition apply_country :: "env \<Rightarrow> string \<times> string list \<Rightarrow> world \<Rightarrow> bool \<times> world" where
  "apply_country e entry w =
     (let country_code = fst entry;
          ipv6_ranges = filter is_ipv6 (snd entry);
          ipv4_ranges = filter (\<lambda>ip. \<not> is_ipv6 ip) (snd entry);
          r4 = (if ipv4_ranges \<noteq> []
                then run_checked e (ipset_commands (set_name_v4 country_code) V4 ipv4_ranges) w
                else (True, w))
      in if \<not> fst r4 then (False, snd r4)
         else if ipv6_ranges \<noteq> []
         then run_checked e (ipset_commands (set_name_v6 country_code) V6 ipv6_ranges) (snd r4)
         else (True, snd r4))"

fun apply_countries :: "env \<Rightarrow> (string \<times> string list) list \<Rightarrow> world \<Rightarrow> bool \<times> world" where
  "apply_countries e [] w = (True, w)"
| "apply_countries e (entry # rest) w =
     (case apply_country e entry w of
        (False, w') \<Rightarrow> (False, w')
      | (True, w') \<Rightarrow> apply_countries e rest w')"

definition apply_native_ipset :: "env \<Rightarrow> (string \<times> string list) list \<Rightarrow> world \<Rightarrow> bool \<times> world" where
  "apply_native_ipset e country_ip_ranges w =
     apply_countries e country_ip_ranges (w\<lparr>ALL_COUNTRIES := map fst country_ip_ranges\<rparr>)"

subsection \<open>Rule chain builder\<close>

definition stateful_rule :: rule where
  "stateful_rule =
     [''-m'', ''conntrack'', ''--ctstate'', ''ESTABLISHED,RELATED'', ''-j'', ''ACCEPT'',
      ''-m'', ''comment'', ''--comment'', ''geoip-firewall-stateful'']"

definition localhost_rule :: rule where
  "localhost_rule =
     [''-i'', ''lo'', ''-j'', ''ACCEPT'', ''-m'', ''comment'', ''--comment'', ''geoip-firewall-localhost'']"

definition private_rule :: "string \<Rightarrow> rule" where
  "private_rule network =
     [''-s'', network, ''-j'', ''ACCEPT'', ''-m'', ''comment'', ''--comment'', ''geoip-firewall-private'']"

datatype verdict = ACCEPT | DROP

definition verdict_name :: "verdict \<Rightarrow> string" where
  "verdict_name v = (case v of ACCEPT \<Rightarrow> ''ACCEPT'' | DROP \<Rightarrow> ''DROP'')"

definition verdict_comment :: "verdict \<Rightarrow> string" where
  "verdict_comment v = (case v of ACCEPT \<Rightarrow> ''geoip-firewall'' | DROP \<Rightarrow> ''geoip-firewall-drop'')"

definition country_log_rule :: "verdict \<Rightarrow> string \<Rightarrow> string \<Rightarrow> rule" where
  "country_log_rule v set_name country =
     [''-m'', ''set'', ''--match-set'', set_name, ''src'',
      ''-m'', ''conntrack'', ''--ctstate'', ''NEW'',
      ''-m'', ''comment'', ''--comment'', ''geoip-firewall-log'',
      ''-j'', ''LOG'', ''--log-prefix'', ''GEOIP-'' @ verdict_name v @ ''-'' @ country @ '': '',
      ''--log-level'', ''6'']"

definition country_verdict_rule :: "verdict \<Rightarrow> string \<Rightarrow> rule" where
  "country_verdict_rule v set_name =
     [''-m'', ''set'', ''--match-set'', set_name, ''src'',
      ''-m'', ''comment'', ''--comment'', verdict_comment v, ''-j'', verdict_name v]"

definition default_log_rule :: rule where
  "default_log_rule =
     [''-m'', ''conntrack'', ''--ctstate'', ''NEW'',
      ''-m'', ''comment'', ''--comment'', ''geoip-firewall-log'',
      ''-j'', ''LOG'', ''--log-prefix'', ''GEOIP-DROP-UNKNOWN: '', ''--log-level'', ''6'']"

definition default_drop_rule :: rule where
  "default_drop_rule = [''-m'', ''comment'', ''--comment'', ''geoip-firewall-drop'', ''-j'', ''DROP'']"

text \<open>The log rule and the verdict rule of one country in one address family.\<close>

definition country_pair :: "verdict \<Rightarrow> family \<Rightarrow> string \<Rightarrow> rule list" where
  "country_pair v fam country =
     (let set_name = (case fam of V4 \<Rightarrow> set_name_v4 country | V6 \<Rightarrow> set_name_v6 country)
      in [country_log_rule v set_name country, country_verdict_rule v set_name])"

text \<open>
  One address family of one country: the existence probe is the exit status of
  \<^verbatim>\<open>ipset list NAME -name\<close>; when it is zero, the two rules are appended.
\<close>

definition country_family_rules :: "env \<Rightarrow> verdict \<Rightarrow> family \<Rightarrow> string \<Rightarrow> world \<Rightarrow> bool \<times> world" where
  "country_family_rules e v fam country w =
     (let set_name = (case fam of V4 \<Rightarrow> set_name_v4 country | V6 \<Rightarrow> set_name_v6 country);
          probe = run_cmd e (IpsetListSet set_name) w
      in if fst probe
         then run_checked e (map (IptAppend fam) (country_pair v fam country)) (snd (snd probe))
         else (True, snd (snd probe)))"

text \<open>
  The loops over the allowed (\<open>ACCEPT\<close>) and over the blocked (\<open>DROP\<close>) countries; they
  differ in the log prefix, the comment and the target.
\<close>

fun country_rules :: "env \<Rightarrow> verdict \<Rightarrow> string list \<Rightarrow> world \<Rightarrow> bool \<times> world" where
  "country_rules e v [] w = (True, w)"
| "country_rules e v (country # rest) w =
     (case country_family_rules e v V4 country w of
        (False, w1) \<Rightarrow> (False, w1)
      | (True, w1) \<Rightarrow>
          (case country_family_rules e v V6 country w1 of
             (False, w2) \<Rightarrow> (False, w2)
           | (True, w2) \<Rightarrow> country_rules e v rest w2))"

definition setup_firewall_rules :: "env \<Rightarrow> string list \<Rightarrow> world \<Rightarrow> bool \<times> world" where
  "setup_firewall_rules e allowed_countries w =
     (case run_checked e [IptAppend V4 stateful_rule, IptAppend V6 stateful_rule] w of
        (False, w1) \<Rightarrow> (False, w1)
      | (True, w1) \<Rightarrow>
     (case run_checked e [IptAppend V4 localhost_rule, IptAppend V6 localhost_rule] w1 of
        (False, w2) \<Rightarrow> (False, w2)
      | (True, w2) \<Rightarrow>
     (case run_checked e (map (\<lambda>network. IptAppend V4 (private_rule network)) PRIVATE_NETWORKS_V4
                          @ map (\<lambda>network. IptAppend V6 (private_rule network)) PRIVATE_NETWORKS_V6) w2 of
        (False, w3) \<Rightarrow> (False, w3)
      | (True, w3) \<Rightarrow>
     (let blocked_countries = filter (\<lambda>c. c \<notin> set allowed_countries) (ALL_COUNTRIES w3)
      in case country_rules e ACCEPT allowed_countries w3 of
        (False, w4) \<Rightarrow> (False, w4)
      | (True, w4) \<Rightarrow>
     (case country_rules e DROP blocked_countries w4 of
        (False, w5) \<Rightarrow> (False, w5)
      | (True, w5) \<Rightarrow>
          run_checked e [IptAppend V4 default_log_rule, IptAppend V4 default_drop_rule,
                         IptAppend V6 default_log_rule, IptAppend V6 default_drop_rule] w5)))))"

subsection \<open>Synchronisation orchestrator\<close>

text \<open>
  The first half of \<^verbatim>\<open>smart_update\<close>, up to the line "MMDB parsing": \<open>Stop r\<close> when the
  function returns or raises \<open>r\<close> there, \<open>Proceed\<close> when it goes on to parse the database.
  A failed \<^verbatim>\<open>ipset list -n\<close> prints nothing, and counts as no set.
\<close>

datatype detect = Stop "error + bool" | Proceed

definition ipset_count_of :: "string list \<Rightarrow> nat" where
  "ipset_count_of out = length (filter (\<lambda>s. startswith s ''country-'') out)"

definition smart_update_detect :: "env \<Rightarrow> world \<Rightarrow> detect \<times> world" where
  "smart_update_detect e w =
     (let mmdb_exists = (mmdb_file w \<noteq> None);
          result = run_cmd e IpsetListNames w;
          ipset_count = ipset_count_of (fst (snd result));
          w1 = snd (snd result)
      in if ipset_count = 0 then
           (if mmdb_exists then
              (if hash_file w1 = None
               then (case check_file_hash_changed e w1 of
                       (Inl err, w2) \<Rightarrow> (Stop (Inl err), w2)
                     | (Inr changed, w2) \<Rightarrow> (Proceed, w2))
               else (Proceed, w1))
            else
              (case download_dbip_database e (w1\<lparr>last_check_file := None, hash_file := None\<rparr>) of
                 (False, w2) \<Rightarrow> (Stop (Inr False), w2)
               | (True, w2) \<Rightarrow> (Proceed, w2)))
         else if mmdb_exists then
           (case check_remote_file_changed e w1 of
              (Inl err, w2) \<Rightarrow> (Stop (Inl err), w2)
            | (Inr False, w2) \<Rightarrow> (Stop (Inr True), w2)
            | (Inr True, w2) \<Rightarrow>
                (case download_dbip_database e w2 of
                   (False, w3) \<Rightarrow> (Stop (Inr False), w3)
                 | (True, w3) \<Rightarrow>
                     (case check_file_hash_changed e w3 of
                        (Inl err, w4) \<Rightarrow> (Stop (Inl err), w4)
                      | (Inr False, w4) \<Rightarrow> (Stop (Inr True), w4)
                      | (Inr True, w4) \<Rightarrow> (Proceed, w4))))
         else
           (case download_dbip_database e w1 of
              (False, w2) \<Rightarrow> (Stop (Inr False), w2)
            | (True, w2) \<Rightarrow> (Proceed, w2)))"

text \<open>
  The second half: parse, clean up, apply the sets, build the chain. \<open>None\<close> is a run
  that never returns (the cleanup loops).
\<close>

definition smart_update_rebuild :: "env \<Rightarrow> world \<Rightarrow> ((error + bool) \<times> world) option" where
  "smart_update_rebuild e w =
     (let country_ip_ranges = parse_mmdb_to_country_ipranges e w
      in if country_ip_ranges = [] then Some (Inr False, w)
         else (case cleanup_existing_ipsets e w of
                 None \<Rightarrow> None
               | Some (cleaned, w1) \<Rightarrow>
                   (case apply_native_ipset e country_ip_ranges w1 of
                      (False, w2) \<Rightarrow> Some (Inr False, w2)
                    | (True, w2) \<Rightarrow>
                        (case setup_firewall_rules e ALLOWED_COUNTRIES w2 of
                           (False, w3) \<Rightarrow> Some (Inr False, w3)
                         | (True, w3) \<Rightarrow> Some (Inr True, w3)))))"

definition smart_update :: "env \<Rightarrow> world \<Rightarrow> ((error + bool) \<times> world) option" where
  "smart_update e w =
     (case smart_update_detect e w of
        (Stop r, w1) \<Rightarrow> Some (r, w1)
      | (Proceed, w1) \<Rightarrow> smart_update_rebuild e w1)"

text \<open>What a run may do to the kernel besides looking at it.\<close>

fun mutating :: "event \<Rightarrow> bool" where
  "mutating (Kernel IpsetListNames ok) = False"
| "mutating (Kernel (IpsetListSet n) ok) = False"
| "mutating (Kernel (IptList fam) ok) = False"
| "mutating (Kernel c ok) = True"
| "mutating NetHead = False"
| "mutating NetDownload = False"

fun network :: "event \<Rightarrow> bool" where
  "network NetHead = True"
| "network NetDownload = True"
| "network (Kernel c ok) = False"

subsection \<open>Observations on a run\<close>

text \<open>
  \<open>extends P w w'\<close>: the trace of \<open>w'\<close> is the trace of \<open>w\<close> followed by events that all
  satisfy \<open>P\<close>. \<open>events_since w w'\<close> are those events.
\<close>

definition extends :: "(event \<Rightarrow> bool) \<Rightarrow> world \<Rightarrow> world \<Rightarrow> bool" where
  "extends P w w' \<longleftrightarrow> (\<exists>evs. trace w' = trace w @ evs \<and> list_all P evs)"

definition events_since :: "world \<Rightarrow> world \<Rightarrow> event list" where
  "events_since w w' = drop (length (trace w)) (trace w')"

definition same_files :: "world \<Rightarrow> world \<Rightarrow> bool" where
  "same_files w w' \<longleftrightarrow>
     mmdb_file w' = mmdb_file w \<and> hash_file w' = hash_file w \<and>
     last_check_file w' = last_check_file w"

definition same_kernel :: "world \<Rightarrow> world \<Rightarrow> bool" where
  "same_kernel w w' \<longleftrightarrow>
     ipsets w' = ipsets w \<and> chain_v4 w' = chain_v4 w \<and> chain_v6 w' = chain_v6 w"

fun failed :: "event \<Rightarrow> bool" where
  "failed (Kernel c ok) = (\<not> ok)"
| "failed NetHead = False"
| "failed NetDownload = False"

text \<open>The create, flush and bulk-populate steps of the address-set manager.\<close>

fun set_step :: "event \<Rightarrow> bool" where
  "set_step (Kernel (IpsetCreate n fam m) ok) = True"
| "set_step (Kernel (IpsetFlush n) ok) = True"
| "set_step (Kernel (IpsetRestore adds) ok) = True"
| "set_step ev = False"

fun rule_append :: "event \<Rightarrow> bool" where
  "rule_append (Kernel (IptAppend fam r) ok) = True"
| "rule_append ev = False"

text \<open>Commands of iptables and ip6tables, as opposed to commands of ipset.\<close>

fun ipt_cmd :: "kcmd \<Rightarrow> bool" where
  "ipt_cmd (IptList fam) = True"
| "ipt_cmd (IptDelete fam num) = True"
| "ipt_cmd (IptAppend fam r) = True"
| "ipt_cmd c = False"

text \<open>What the cleanup issues: listings, rule deletions, set destructions.\<close>

fun cleanup_event :: "event \<Rightarrow> bool" where
  "cleanup_event (Kernel (IptList fam) ok) = True"
| "cleanup_event (Kernel (IptDelete fam num) ok) = True"
| "cleanup_event (Kernel IpsetListNames ok) = True"
| "cleanup_event (Kernel (IpsetDestroy n) ok) = True"
| "cleanup_event ev = False"

text \<open>What the rule chain builder issues: existence probes and appended rules.\<close>

fun setup_event :: "event \<Rightarrow> bool" where
  "setup_event (Kernel (IpsetListSet n) ok) = True"
| "setup_event (Kernel (IptAppend fam r) ok) = True"
| "setup_event ev = False"

text \<open>
  What holds between the world before and after any part of the cleanup of the rules
  that returns: files and address sets are untouched, the events are listings and
  deletions.
\<close>

definition rules_cleaned :: "world \<Rightarrow> world \<Rightarrow> bool" where
  "rules_cleaned w w' \<longleftrightarrow>
     same_files w w' \<and> ALL_COUNTRIES w' = ALL_COUNTRIES w \<and> ipsets w' = ipsets w \<and>
     extends cleanup_event w w'"

text \<open>
  The commands \<open>apply_native_ipset\<close> issues for one dictionary entry when none of them
  fails: the IPv4 set first, then the IPv6 set, each only when it has a prefix.
\<close>

definition country_commands :: "string \<times> string list \<Rightarrow> kcmd list" where
  "country_commands entry =
     (let ipv4_ranges = filter (\<lambda>ip. \<not> is_ipv6 ip) (snd entry);
          ipv6_ranges = filter is_ipv6 (snd entry)
      in (if ipv4_ranges \<noteq> [] then ipset_commands (set_name_v4 (fst entry)) V4 ipv4_ranges else [])
         @ (if ipv6_ranges \<noteq> [] then ipset_commands (set_name_v6 (fst entry)) V6 ipv6_ranges else []))"

text \<open>
  What holds between the world before and after any part of the rule chain builder:
  files, address sets and the list of countries are untouched, the events are existence
  probes and appended rules.
\<close>

definition rules_built :: "world \<Rightarrow> world \<Rightarrow> bool" where
  "rules_built w w' \<longleftrightarrow>
     same_files w w' \<and> ALL_COUNTRIES w' = ALL_COUNTRIES w \<and> ipsets w' = ipsets w \<and>
     extends setup_event w w'"

text \<open>A kernel that rejects nothing: a command fails only when it cannot be carried out.\<close>

definition never_rejects :: "env \<Rightarrow> bool" where
  "never_rejects e \<longleftrightarrow> (\<forall>n c. \<not> kernel_rejects e n c)"

text \<open>The countries of a list whose set of the given family exists in the kernel.\<close>

definition present :: "world \<Rightarrow> family \<Rightarrow> string list \<Rightarrow> string list" where
  "present w fam countries =
     filter (\<lambda>c. set_exists w (case fam of V4 \<Rightarrow> set_name_v4 c | V6 \<Rightarrow> set_name_v6 c)) countries"

text \<open>A rule carries a marker when the marker occurs in its text.\<close>

definition rule_marked :: "string \<Rightarrow> rule \<Rightarrow> bool" where
  "rule_marked marker r \<longleftrightarrow> str_in marker (join_sp r)"

text \<open>
  The position (counted from \<open>k\<close> for the head of the list) of the first rule that carries the
  marker.
\<close>

fun first_marked :: "string \<Rightarrow> nat \<Rightarrow> rule list \<Rightarrow> nat option" where
  "first_marked marker k [] = None"
| "first_marked marker k (r # rs) =
     (if rule_marked marker r then Some k else first_marked marker (Suc k) rs)"

text \<open>
  What the scan needs of a marker to find exactly the marked rules: it is not empty, and
  it starts with a character that is neither a digit nor a space, so that it cannot
  begin inside the position printed in front of a rule.
\<close>

definition marker_ok :: "string \<Rightarrow> bool" where
  "marker_ok marker \<longleftrightarrow>
     marker \<noteq> [] \<and> \<not> is_digit (hd marker) \<and> hd marker \<noteq> CHR '' ''"

text \<open>Names of this system's address sets, as the cleanup recognises them.\<close>

definition geoip_set_name :: "string \<Rightarrow> bool" where
  "geoip_set_name s \<longleftrightarrow> startswith s ''country-'' \<or> startswith s ''geoip-''"

text \<open>
  A cleanup loop that cannot make progress: the listing works and shows a marked rule,
  and every deletion is rejected.
\<close>

definition stuck :: "env \<Rightarrow> family \<Rightarrow> string \<Rightarrow> world \<Rightarrow> bool" where
  "stuck e fam marker w \<longleftrightarrow>
     (\<forall>n num. kernel_rejects e n (IptDelete fam num)) \<and>
     (\<forall>n. \<not> kernel_rejects e n (IptList fam)) \<and>
     (\<exists>line_num. scan_lines marker (listing (chain fam w)) = Found line_num)"

text \<open>
  The address sets a dictionary asks for, in the order in which they are created: per
  country the IPv4 set when there is a prefix without a colon, then the \<^verbatim>\<open>-v6\<close> set when
  there is a prefix with one.
\<close>

definition country_groups :: "string \<times> string list \<Rightarrow> (string \<times> family \<times> string list) list" where
  "country_groups entry =
     (let ipv4_ranges = filter (\<lambda>ip. \<not> is_ipv6 ip) (snd entry);
          ipv6_ranges = filter is_ipv6 (snd entry)
      in (if ipv4_ranges \<noteq> [] then [(set_name_v4 (fst entry), V4, ipv4_ranges)] else [])
         @ (if ipv6_ranges \<noteq> [] then [(set_name_v6 (fst entry), V6, ipv6_ranges)] else []))"

definition expected_sets :: "(string \<times> string list) list \<Rightarrow> (string \<times> string list) list" where
  "expected_sets country_ip_ranges =
     map (\<lambda>g. (fst g, snd (snd g))) (concat (map country_groups country_ip_ranges))"

definition group_commands :: "string \<times> family \<times> string list \<Rightarrow> kcmd list" where
  "group_commands g = ipset_commands (fst g) (fst (snd g)) (snd (snd g))"

text \<open>The metadata record the server's answer amounts to, and the hash of the database on disk.\<close>

definition remote_check_info :: "env \<Rightarrow> string option" where
  "remote_check_info e =
     (case head_response e of
        HeadOk last_modified content_length \<Rightarrow> Some (check_info_of last_modified content_length)
      | HeadHTTPError code \<Rightarrow> None
      | HeadFailed \<Rightarrow> None)"

definition current_hash :: "env \<Rightarrow> world \<Rightarrow> string option" where
  "current_hash e w = map_option (sha256_hex e) (mmdb_file w)"

text \<open>
  The database cannot be read: the parsing library is not installed, the file is
  missing, or opening or iterating it raises.
\<close>

definition database_unreadable :: "env \<Rightarrow> world \<Rightarrow> bool" where
  "database_unreadable e w \<longleftrightarrow>
     \<not> maxminddb_installed e \<or>
     (case mmdb_file w of None \<Rightarrow> True | Some content \<Rightarrow> read_mmdb e content = None)"

subsection \<open>Example inputs\<close>

text \<open>
  A database with two countries, one of them with an IPv6 prefix, and one record without
  a country; a kernel that rejects nothing; a server that answers the HEAD request.
\<close>

definition example_records :: "(string \<times> mmdb_data) list" where
  "example_records =
     [(''1.0.0.0/24'', IsoCode ''KR''), (''2.0.0.0/24'', IsoCode ''US''),
      (''2001:db8::/32'', IsoCode ''KR''), (''3.0.0.0/8'', NoCountry)]"

definition example_env :: env where
  "example_env =
     \<lparr>kernel_rejects = (\<lambda>n c. False),
      head_response = HeadOk (Some ''Mon'') (Some ''42''),
      download_response = Downloaded ''new'',
      maxminddb_installed = True,
      read_mmdb = (\<lambda>content. if content = ''bad'' then None else Some example_records),
      sha256_hex = (\<lambda>content. ''#'' @ content)\<rparr>"

text \<open>Nothing installed yet.\<close>

definition fresh_world :: world where
  "fresh_world =
     \<lparr>ipsets = [], chain_v4 = [], chain_v6 = [], mmdb_file = None, hash_file = None,
      last_check_file = None, ALL_COUNTRIES = [], trace = []\<rparr>"

text \<open>The steady state: a country set, the database and both baselines are there.\<close>

definition steady_world :: world where
  "steady_world =
     \<lparr>ipsets = [(''country-KR'', [''1.0.0.0/24''])],
      chain_v4 = [[''-p'', ''tcp'', ''--dport'', ''22'', ''-j'', ''ACCEPT'']],
      chain_v6 = [],
      mmdb_file = Some ''old'', hash_file = Some ''#old'',
      last_check_file = Some ''Mon|42'', ALL_COUNTRIES = [], trace = []\<rparr>"

text \<open>After a reboot: the address sets are gone, the files are still there.\<close>

definition reboot_world :: world where
  "reboot_world = steady_world\<lparr>ipsets := []\<rparr>"

text \<open>The dictionary that \<open>example_records\<close> parses to.\<close>

definition example_ranges :: "(string \<times> string list) list" where
  "example_ranges = [(''KR'', [''1.0.0.0/24'', ''2001:db8::/32'']), (''US'', [''2.0.0.0/24''])]"

text \<open>The reboot world once the cleanup has looked at it and found nothing to remove.\<close>

definition cleaned_world :: world where
  "cleaned_world =
     reboot_world\<lparr>trace := [Kernel IpsetListNames True, Kernel (IptList V4) True,
                             Kernel (IptList V4) True, Kernel (IptList V6) True,
                             Kernel (IptList V6) True, Kernel IpsetListNames True]\<rparr>"

text \<open>The cleaned world once the address sets of \<open>example_ranges\<close> have been applied.\<close>

definition applied_world :: world where
  "applied_world =
     cleaned_world\<lparr>
       ipsets := [(''country-KR'', [''1.0.0.0/24'']), (''country-KR-v6'', [''2001:db8::/32'']),
                  (''country-US'', [''2.0.0.0/24''])],
       ALL_COUNTRIES := [''KR'', ''US''],
       trace := trace cleaned_world @
         [Kernel (IpsetCreate ''country-KR'' V4 1) True,
          Kernel (IpsetFlush ''country-KR'') True,
          Kernel (IpsetRestore [(''country-KR'', ''1.0.0.0/24'')]) True,
          Kernel (IpsetCreate ''country-KR-v6'' V6 1) True,
          Kernel (IpsetFlush ''country-KR-v6'') True,
          Kernel (IpsetRestore [(''country-KR-v6'', ''2001:db8::/32'')]) True,
          Kernel (IpsetCreate ''country-US'' V4 1) True,
          Kernel (IpsetFlush ''country-US'') True,
          Kernel (IpsetRestore [(''country-US'', ''2.0.0.0/24'')]) True]\<rparr>"

subsection \<open>The shape of a generated chain\<close>

definition private_networks :: "family \<Rightarrow> string list" where
  "private_networks fam = (case fam of V4 \<Rightarrow> PRIVATE_NETWORKS_V4 | V6 \<Rightarrow> PRIVATE_NETWORKS_V6)"

text \<open>
  The rules of one address family in the order the builder appends them, for the
  allowed countries \<open>present_allowed\<close> and the blocked countries \<open>present_blocked\<close> whose
  set of that family was found: (1) stateful accept, (2) loopback accept, (3) private
  networks, (4) log and accept per allowed country, (5) log and drop per blocked
  country, (6) default log and default drop.
\<close>

definition generated_chain :: "family \<Rightarrow> string list \<Rightarrow> string list \<Rightarrow> rule list" where
  "generated_chain fam present_allowed present_blocked =
     [stateful_rule] @ [localhost_rule] @ map private_rule (private_networks fam)
     @ concat (map (country_pair ACCEPT fam) present_allowed)
     @ concat (map (country_pair DROP fam) present_blocked)
     @ [default_log_rule, default_drop_rule]"

text \<open>
  Reading a rule back, as the packet filter does: \<open>arg_after opt r\<close> is the argument
  that follows the first occurrence of the option \<open>opt\<close>. The kind of a rule is decided
  by its target (\<^verbatim>\<open>-j\<close>) and by what it matches on: an address set
  (\<^verbatim>\<open>--match-set\<close>), a connection state (\<^verbatim>\<open>--ctstate\<close>), an input interface (\<^verbatim>\<open>-i\<close>), a source
  network (\<^verbatim>\<open>-s\<close>). A drop that matches on none of them is unconditional.
\<close>

fun arg_after :: "string \<Rightarrow> rule \<Rightarrow> string option" where
  "arg_after opt [] = None"
| "arg_after opt [x] = None"
| "arg_after opt (x # y # rest) = (if x = opt then Some y else arg_after opt (y # rest))"

datatype rule_kind =
    StatefulAccept | LoopbackAccept | SourceAccept string
  | SetLog string | SetAccept string | SetDrop string
  | DefaultLog | UnconditionalDrop | OtherRule

definition classify :: "rule \<Rightarrow> rule_kind" where
  "classify r =
     (let target = arg_after ''-j'' r; on_set = arg_after ''--match-set'' r;
          state = arg_after ''--ctstate'' r; iface = arg_after ''-i'' r;
          source = arg_after ''-s'' r
      in case on_set of
           Some n \<Rightarrow>
             if iface \<noteq> None \<or> source \<noteq> None then OtherRule
             else if target = Some ''LOG'' then SetLog n
             else if target = Some ''ACCEPT'' \<and> state = None then SetAccept n
             else if target = Some ''DROP'' \<and> state = None then SetDrop n
             else OtherRule
         | None \<Rightarrow>
             if target = Some ''ACCEPT'' \<and> state = Some ''ESTABLISHED,RELATED''
                \<and> iface = None \<and> source = None then StatefulAccept
             else if target = Some ''ACCEPT'' \<and> iface = Some ''lo''
                \<and> state = None \<and> source = None then LoopbackAccept
             else if target = Some ''ACCEPT'' \<and> iface = None \<and> state = None
             then (case source of Some net \<Rightarrow> SourceAccept net | None \<Rightarrow> OtherRule)
             else if target = Some ''LOG'' \<and> iface = None \<and> source = None then DefaultLog
             else if target = Some ''DROP'' \<and> iface = None \<and> source = None \<and> state = None
             then UnconditionalDrop
             else OtherRule)"

text \<open>
  The order the chain of one address family has to have, in kinds of rules: (1) the
  stateful accept, (2) the loopback accept, (3) one accept per private network, (4) for
  each allowed country a log and then an accept on the country's set, (5) for each
  blocked country a log and then a drop on the country's set, (6) the default log and
  the unconditional drop. The set of a country is \<^verbatim>\<open>country-CC\<close> for IPv4 and
  \<^verbatim>\<open>country-CC-v6\<close> for IPv6.
\<close>

definition country_set :: "family \<Rightarrow> string \<Rightarrow> string" where
  "country_set fam cc = (case fam of V4 \<Rightarrow> ''country-'' @ cc | V6 \<Rightarrow> ''country-'' @ cc @ ''-v6'')"

definition chain_order :: "family \<Rightarrow> string list \<Rightarrow> string list \<Rightarrow> rule_kind list" where
  "chain_order fam allowed blocked =
     [StatefulAccept, LoopbackAccept]
     @ (case fam of
          V4 \<Rightarrow> map SourceAccept [''10.0.0.0/8'', ''172.16.0.0/12'', ''192.168.0.0/16'', ''169.254.0.0/16'']
        | V6 \<Rightarrow> map SourceAccept [''fc00::/7'', ''fe80::/10''])
     @ concat (map (\<lambda>cc. [SetLog (country_set fam cc), SetAccept (country_set fam cc)]) allowed)
     @ concat (map (\<lambda>cc. [SetLog (country_set fam cc), SetDrop (country_set fam cc)]) blocked)
     @ [DefaultLog, UnconditionalDrop]"

text \<open>
  \<open>part xs full ok\<close>: a phase that appended \<open>xs\<close> got through an initial piece of \<open>full\<close>,
  and through all of it when it succeeded. \<open>grows w w' x4 x6\<close>: from \<open>w\<close> to \<open>w'\<close> the two
  chains grew by \<open>x4\<close> and \<open>x6\<close> at their ends and nothing else in the kernel changed.
\<close>

definition part :: "rule list \<Rightarrow> rule list \<Rightarrow> bool \<Rightarrow> bool" where
  "part xs full ok \<longleftrightarrow> prefix xs full \<and> (ok \<longrightarrow> xs = full)"

definition grows :: "world \<Rightarrow> world \<Rightarrow> rule list \<Rightarrow> rule list \<Rightarrow> bool" where
  "grows w w' x4 x6 \<longleftrightarrow>
     chain_v4 w' = chain_v4 w @ x4 \<and> chain_v6 w' = chain_v6 w @ x6 \<and>
     ipsets w' = ipsets w \<and> ALL_COUNTRIES w' = ALL_COUNTRIES w"

definition rules_of :: "family \<Rightarrow> (family \<times> rule) list \<Rightarrow> rule list" where
  "rules_of fam frs = map snd (filter (\<lambda>fr. fst fr = fam) frs)"

text \<open>
  A kernel that refuses every rule deletion, and a chain in which one rule of an earlier
  generation is left.
\<close>

definition delete_rejecting_env :: env where
  "delete_rejecting_env =
     example_env\<lparr>kernel_rejects := (\<lambda>n c. case c of IptDelete fam num \<Rightarrow> True | _ \<Rightarrow> False)\<rparr>"

definition stale_world :: world where
  "stale_world = steady_world\<lparr>chain_v4 := chain_v4 steady_world @ [default_drop_rule]\<rparr>"

text \<open>
  After a reboot with a metadata record older than what the server now reports, and the
  world a returning run leaves behind, which is the world the next run starts in.
\<close>

definition stale_reboot_world :: world where
  "stale_reboot_world = reboot_world\<lparr>last_check_file := Some ''Sun|41''\<rparr>"

definition world_after :: "env \<Rightarrow> world \<Rightarrow> world" where
  "world_after e w = (case smart_update e w of None \<Rightarrow> w | Some (r, w') \<Rightarrow> w')"

subsection \<open>Traces and frames\<close>

lemma extends_refl: "extends P w w"
  by (simp add: extends_def)

lemma extends_trans: "extends P a b \<Longrightarrow> extends P b c \<Longrightarrow> extends P a c"
  by (auto simp: extends_def)

lemma extends_mono: "extends P a b \<Longrightarrow> (\<And>ev. P ev \<Longrightarrow> Q ev) \<Longrightarrow> extends Q a b"
  by (auto simp: extends_def list_all_iff)

lemma extends_events: "extends P w w' \<Longrightarrow> list_all P (events_since w w')"
  by (auto simp: extends_def events_since_def)

lemma extends_trace_eq: "extends P w w' \<Longrightarrow> trace w' = trace w @ events_since w w'"
  by (auto simp: extends_def events_since_def)

lemma events_since_trans:
  "extends P a b \<Longrightarrow> extends Q b c \<Longrightarrow> events_since a c = events_since a b @ events_since b c"
  by (auto simp: extends_def events_since_def)

lemma same_files_refl: "same_files w w"
  by (simp add: same_files_def)

lemma same_files_trans: "same_files a b \<Longrightarrow> same_files b c \<Longrightarrow> same_files a c"
  by (simp add: same_files_def)

lemma same_kernel_refl: "same_kernel w w"
  by (simp add: same_kernel_def)

lemma same_kernel_trans: "same_kernel a b \<Longrightarrow> same_kernel b c \<Longrightarrow> same_kernel a c"
  by (simp add: same_kernel_def)

lemma kernel_effect_frame:
  "kernel_effect c w = Some (out, w') \<Longrightarrow>
     same_files w w' \<and> ALL_COUNTRIES w' = ALL_COUNTRIES w \<and> trace w' = trace w"
  by (cases c) (auto simp: set_chain_def same_files_def split: if_splits option.splits family.splits)

lemma kernel_effect_readonly:
  "kernel_effect c w = Some (out, w') \<Longrightarrow> \<not> mutating (Kernel c b) \<Longrightarrow> w' = w"
  by (cases c) (auto split: if_splits)

lemma run_cmd_trace:
  "trace (snd (snd (run_cmd e c w))) = trace w @ [Kernel c (fst (run_cmd e c w))]"
  by (auto simp: run_cmd_def split: option.splits)

lemma run_cmd_files: "same_files w (snd (snd (run_cmd e c w)))"
  by (auto simp: run_cmd_def same_files_def split: option.splits dest!: kernel_effect_frame)

lemma run_cmd_countries: "ALL_COUNTRIES (snd (snd (run_cmd e c w))) = ALL_COUNTRIES w"
  by (auto simp: run_cmd_def split: option.splits dest!: kernel_effect_frame)

lemma run_cmd_readonly:
  "\<not> mutating (Kernel c True) \<Longrightarrow> same_kernel w (snd (snd (run_cmd e c w)))"
  by (auto simp: run_cmd_def same_kernel_def split: option.splits dest: kernel_effect_readonly)

lemma run_cmd_failed:
  "\<not> fst (run_cmd e c w) \<Longrightarrow> same_kernel w (snd (snd (run_cmd e c w)))"
  by (auto simp: run_cmd_def same_kernel_def split: option.splits if_splits)

lemma run_cmd_extends: "P (Kernel c (fst (run_cmd e c w))) \<Longrightarrow> extends P w (snd (snd (run_cmd e c w)))"
  by (simp add: extends_def run_cmd_trace)

lemma run_cmd_list_names:
  "run_cmd e IpsetListNames w =
     (if kernel_rejects e (length (trace w)) IpsetListNames
      then (False, [''''], w\<lparr>trace := trace w @ [Kernel IpsetListNames False]\<rparr>)
      else (True, map fst (ipsets w) @ [''''], w\<lparr>trace := trace w @ [Kernel IpsetListNames True]\<rparr>))"
  by (simp add: run_cmd_def)

subsection \<open>Sequences of commands\<close>

lemma run_checked_files: "same_files w (snd (run_checked e cmds w))"
proof (induction cmds arbitrary: w)
  case Nil
  show ?case by (simp add: same_files_refl)
next
  case (Cons c cs)
  obtain ok out w' where r: "run_cmd e c w = (ok, out, w')" by (cases "run_cmd e c w")
  have f: "same_files w w'" using run_cmd_files[of w e c] r by simp
  show ?case using Cons.IH[of w'] f r by (auto intro: same_files_trans)
qed

lemma run_checked_countries: "ALL_COUNTRIES (snd (run_checked e cmds w)) = ALL_COUNTRIES w"
proof (induction cmds arbitrary: w)
  case Nil
  show ?case by simp
next
  case (Cons c cs)
  obtain ok out w' where r: "run_cmd e c w = (ok, out, w')" by (cases "run_cmd e c w")
  have f: "ALL_COUNTRIES w' = ALL_COUNTRIES w" using run_cmd_countries[of e c w] r by simp
  show ?case using Cons.IH[of w'] f r by auto
qed

lemma run_checked_trace_ok:
  "run_checked e cmds w = (True, w') \<Longrightarrow> trace w' = trace w @ map (\<lambda>c. Kernel c True) cmds"
proof (induction cmds arbitrary: w)
  case Nil
  then show ?case by simp
next
  case (Cons c cs)
  obtain ok out w1 where r: "run_cmd e c w = (ok, out, w1)" by (cases "run_cmd e c w")
  have t: "trace w1 = trace w @ [Kernel c ok]" using run_cmd_trace[of e c w] r by simp
  from Cons.prems r have ok: "ok" and rest: "run_checked e cs w1 = (True, w')"
    by (auto split: if_splits)
  show ?case using Cons.IH[OF rest] t ok by simp
qed

lemma run_checked_trace_failed:
  "run_checked e cmds w = (False, w') \<Longrightarrow>
     \<exists>pre c post. cmds = pre @ c # post \<and>
        trace w' = trace w @ map (\<lambda>c. Kernel c True) pre @ [Kernel c False]"
proof (induction cmds arbitrary: w)
  case Nil
  then show ?case by simp
next
  case (Cons c cs)
  obtain ok out w1 where r: "run_cmd e c w = (ok, out, w1)" by (cases "run_cmd e c w")
  have t: "trace w1 = trace w @ [Kernel c ok]" using run_cmd_trace[of e c w] r by simp
  show ?case
  proof (cases ok)
    case True
    with Cons.prems r have rest: "run_checked e cs w1 = (False, w')" by simp
    from Cons.IH[OF rest] obtain pre c' post where
      "cs = pre @ c' # post" "trace w' = trace w1 @ map (\<lambda>c. Kernel c True) pre @ [Kernel c' False]"
      by blast
    then have "c # cs = (c # pre) @ c' # post \<and>
        trace w' = trace w @ map (\<lambda>c. Kernel c True) (c # pre) @ [Kernel c' False]"
      using t True by simp
    then show ?thesis by blast
  next
    case False
    with Cons.prems r have "w' = w1" by simp
    then have "c # cs = [] @ c # cs \<and> trace w' = trace w @ map (\<lambda>c. Kernel c True) [] @ [Kernel c False]"
      using t False by simp
    then show ?thesis by blast
  qed
qed

lemma run_checked_extends:
  assumes "\<And>c b. c \<in> set cmds \<Longrightarrow> P (Kernel c b)"
  shows "extends P w (snd (run_checked e cmds w))"
proof (cases "run_checked e cmds w")
  case (Pair ok w')
  show ?thesis
  proof (cases ok)
    case True
    with Pair run_checked_trace_ok[of e cmds w w'] assms show ?thesis
      by (auto simp: extends_def list_all_iff)
  next
    case False
    with Pair run_checked_trace_failed[of e cmds w w'] assms show ?thesis
      by (auto simp: extends_def list_all_iff)
  qed
qed

lemma run_checked_failed_event:
  "run_checked e cmds w = (ok, w') \<Longrightarrow> ok \<longleftrightarrow> \<not> list_ex failed (events_since w w')"
proof (cases ok)
  case True
  assume "run_checked e cmds w = (ok, w')"
  with True run_checked_trace_ok[of e cmds w w'] show ?thesis
    by (auto simp: events_since_def list_ex_iff)
next
  case False
  assume "run_checked e cmds w = (ok, w')"
  with False run_checked_trace_failed[of e cmds w w'] show ?thesis
    by (auto simp: events_since_def list_ex_iff)
qed

lemma run_unchecked_files: "same_files w (run_unchecked e cmds w)"
proof (induction cmds arbitrary: w)
  case Nil
  show ?case by (simp add: same_files_refl)
next
  case (Cons c cs)
  show ?case using Cons.IH[of "snd (snd (run_cmd e c w))"] run_cmd_files[of w e c]
    by (auto intro: same_files_trans)
qed

lemma run_unchecked_countries: "ALL_COUNTRIES (run_unchecked e cmds w) = ALL_COUNTRIES w"
  by (induction cmds arbitrary: w) (simp_all add: run_cmd_countries)

lemma run_unchecked_extends:
  assumes "\<And>c b. c \<in> set cmds \<Longrightarrow> P (Kernel c b)"
  shows "extends P w (run_unchecked e cmds w)"
  using assms
proof (induction cmds arbitrary: w)
  case Nil
  show ?case by (simp add: extends_refl)
next
  case (Cons c cs)
  have "extends P w (snd (snd (run_cmd e c w)))"
    by (rule run_cmd_extends) (simp add: Cons.prems)
  moreover have "extends P (snd (snd (run_cmd e c w))) (run_unchecked e cs (snd (snd (run_cmd e c w))))"
    by (rule Cons.IH) (simp add: Cons.prems)
  ultimately show ?case by (auto intro: extends_trans)
qed

subsection \<open>Change detector, download, detection phase\<close>

lemma ipset_count_of_append: "ipset_count_of (xs @ ['''']) = ipset_count_of xs"
  by (simp add: ipset_count_of_def startswith_def)

lemma ipset_count_of_empty: "ipset_count_of [''''] = 0"
  by (simp add: ipset_count_of_def startswith_def)

lemma check_remote_trace_indep:
  "check_remote_file_changed e (w\<lparr>trace := t\<rparr>) =
     (fst (check_remote_file_changed e w), (snd (check_remote_file_changed e w))\<lparr>trace := t @ [NetHead]\<rparr>)"
  by (simp add: check_remote_file_changed_def Let_def split: head_result.splits option.splits)

lemma check_remote_unchanged:
  "fst (check_remote_file_changed e w) = Inr False \<Longrightarrow>
     check_remote_file_changed e w = (Inr False, w\<lparr>trace := trace w @ [NetHead]\<rparr>)"
  by (auto simp: check_remote_file_changed_def Let_def split: head_result.splits option.splits if_splits)

lemma check_remote_frame:
  "check_remote_file_changed e w = (r, w') \<Longrightarrow>
     same_kernel w w' \<and> trace w' = trace w @ [NetHead] \<and> ALL_COUNTRIES w' = ALL_COUNTRIES w \<and>
     mmdb_file w' = mmdb_file w \<and> hash_file w' = hash_file w"
  by (auto simp: check_remote_file_changed_def Let_def same_kernel_def
           split: head_result.splits option.splits if_splits)

lemma check_hash_frame:
  "check_file_hash_changed e w = (r, w') \<Longrightarrow>
     same_kernel w w' \<and> trace w' = trace w \<and> ALL_COUNTRIES w' = ALL_COUNTRIES w \<and>
     mmdb_file w' = mmdb_file w \<and> last_check_file w' = last_check_file w"
  by (auto simp: check_file_hash_changed_def Let_def same_kernel_def
           split: option.splits if_splits)

lemma download_frame:
  "download_dbip_database e w = (ok, w') \<Longrightarrow>
     same_kernel w w' \<and> trace w' = trace w @ [NetDownload] \<and> ALL_COUNTRIES w' = ALL_COUNTRIES w \<and>
     hash_file w' = hash_file w \<and> last_check_file w' = last_check_file w"
  by (auto simp: download_dbip_database_def Let_def same_kernel_def
           split: download_result.splits)

lemma steady_state_unchanged:
  assumes sets: "\<exists>n \<in> set (map fst (ipsets w)). startswith n ''country-''"
    and listed: "\<not> kernel_rejects e (length (trace w)) IpsetListNames"
    and db: "mmdb_file w \<noteq> None"
    and unchanged: "fst (check_remote_file_changed e w) = Inr False"
  shows "smart_update e w =
           Some (Inr True, w\<lparr>trace := trace w @ [Kernel IpsetListNames True, NetHead]\<rparr>)"
proof -
  from sets have cnt: "ipset_count_of (map fst (ipsets w)) \<noteq> 0"
    by (auto simp: ipset_count_of_def filter_empty_conv)
  let ?w1 = "w\<lparr>trace := trace w @ [Kernel IpsetListNames True]\<rparr>"
  have chk: "check_remote_file_changed e ?w1 =
               (Inr False, w\<lparr>trace := trace w @ [Kernel IpsetListNames True, NetHead]\<rparr>)"
    using check_remote_unchanged[OF unchanged] by (simp add: check_remote_trace_indep)
  show ?thesis
    using cnt listed db chk
    by (simp add: smart_update_def smart_update_detect_def run_cmd_list_names ipset_count_of_append)
qed

text \<open>
  The detection phase looks at the kernel (one \<^verbatim>\<open>ipset list -n\<close>) and talks to the
  network; it changes neither the address sets nor the chains.
\<close>

lemma smart_update_detect_frame:
  assumes "smart_update_detect e w = (d, w1)"
  shows "same_kernel w w1 \<and> ALL_COUNTRIES w1 = ALL_COUNTRIES w \<and>
         extends (\<lambda>ev. \<not> mutating ev \<and> \<not> set_step ev \<and> \<not> rule_append ev) w w1"
proof -
  define w0 where "w0 = snd (snd (run_cmd e IpsetListNames w))"
  have k0: "same_kernel w w0" unfolding w0_def by (rule run_cmd_readonly) simp
  have t0: "trace w0 = trace w @ [Kernel IpsetListNames (fst (run_cmd e IpsetListNames w))]"
    unfolding w0_def by (rule run_cmd_trace)
  have c0: "ALL_COUNTRIES w0 = ALL_COUNTRIES w" unfolding w0_def by (rule run_cmd_countries)
  have goal: "same_kernel w0 w1 \<and> ALL_COUNTRIES w1 = ALL_COUNTRIES w0 \<and>
      (\<exists>evs. trace w1 = trace w0 @ evs \<and> set evs \<subseteq> {NetHead, NetDownload})"
    using assms
    unfolding smart_update_detect_def Let_def w0_def[symmetric]
    by (auto simp: same_kernel_refl split: if_splits prod.splits sum.splits bool.splits
             dest!: check_remote_frame check_hash_frame download_frame
             simp: same_kernel_def)
  then obtain evs where evs: "trace w1 = trace w0 @ evs" "set evs \<subseteq> {NetHead, NetDownload}"
    by blast
  have "list_all (\<lambda>ev. \<not> mutating ev \<and> \<not> set_step ev \<and> \<not> rule_append ev) evs"
    using evs(2) by (auto simp: list_all_iff)
  then have "extends (\<lambda>ev. \<not> mutating ev \<and> \<not> set_step ev \<and> \<not> rule_append ev) w w1"
    using evs(1) t0 by (auto simp: extends_def)
  with goal k0 c0 show ?thesis by (auto intro: same_kernel_trans)
qed

section \<open>Steady state without a remote change\<close>

text \<open>
  C3. In the steady state (the listing shows at least one country set, the database file
  exists), when the remote metadata check reports no change, \<open>smart_update\<close> returns
  \<open>True\<close>. The only events of the run are the listing of the sets and the HEAD request:
  there is no download, and no command that creates, flushes, populates or destroys a
  set or that adds or deletes a rule. Address sets, chains and files are what they were.
\<close>

theorem C3_steady_state_no_mutation:
  assumes sets: "ipset_count_of (map fst (ipsets w)) \<noteq> 0"
    and listed: "\<not> kernel_rejects e (length (trace w)) IpsetListNames"
    and db: "mmdb_file w \<noteq> None"
    and unchanged: "fst (check_remote_file_changed e w) = Inr False"
  shows "\<exists>w'. smart_update e w = Some (Inr True, w') \<and>
           same_kernel w w' \<and> same_files w w' \<and>
           events_since w w' = [Kernel IpsetListNames True, NetHead] \<and>
           list_all (\<lambda>ev. ev \<noteq> NetDownload \<and> \<not> mutating ev) (events_since w w')"
proof -
  from sets have "\<exists>n \<in> set (map fst (ipsets w)). startswith n ''country-''"
    by (auto simp: ipset_count_of_def filter_empty_conv)
  from steady_state_unchanged[OF this listed db unchanged] show ?thesis
    by (simp add: same_kernel_def same_files_def events_since_def)
qed

theorem C3_witness:
  "ipset_count_of (map fst (ipsets steady_world)) \<noteq> 0 \<and>
   \<not> kernel_rejects example_env (length (trace steady_world)) IpsetListNames \<and>
   mmdb_file steady_world \<noteq> None \<and>
   fst (check_remote_file_changed example_env steady_world) = Inr False \<and>
   (\<exists>w'. smart_update example_env steady_world = Some (Inr True, w') \<and>
      same_kernel steady_world w' \<and> same_files steady_world w' \<and>
      events_since steady_world w' = [Kernel IpsetListNames True, NetHead] \<and>
      list_all (\<lambda>ev. ev \<noteq> NetDownload \<and> \<not> mutating ev) (events_since steady_world w'))"
proof -
  have h1: "ipset_count_of (map fst (ipsets steady_world)) \<noteq> 0"
    by (simp add: steady_world_def ipset_count_of_def startswith_def)
  have h2: "\<not> kernel_rejects example_env (length (trace steady_world)) IpsetListNames"
    by (simp add: example_env_def)
  have h3: "mmdb_file steady_world \<noteq> None"
    by (simp add: steady_world_def)
  have h4: "fst (check_remote_file_changed example_env steady_world) = Inr False"
    by (simp add: check_remote_file_changed_def example_env_def steady_world_def
          check_info_of_def header_get_def strip_def is_space_def)
  show ?thesis
    using h1 h2 h3 h4 C3_steady_state_no_mutation[OF h1 h2 h3 h4] by blast
qed

section \<open>When the baselines are written\<close>

text \<open>
  C1 says that a run which does not complete a successful update leaves the baseline
  files unchanged. It does not: the remote check stores the new metadata the moment it
  sees a difference. Here the metadata changed and the download then fails; the run
  returns \<open>False\<close>, and LAST\_CHECK\_FILE already holds the new record.
\<close>

theorem C1_counterexample:
  "smart_update (example_env\<lparr>download_response := TransferFailed\<rparr>)
                (steady_world\<lparr>last_check_file := Some ''Sun|41''\<rparr>)
   = Some (Inr False,
           steady_world\<lparr>last_check_file := Some ''Mon|42'',
                        trace := [Kernel IpsetListNames True, NetHead, NetDownload]\<rparr>)"
  by (simp add: smart_update_def smart_update_detect_def run_cmd_list_names
        check_remote_file_changed_def download_dbip_database_def
        example_env_def steady_world_def ipset_count_of_def startswith_def
        check_info_of_def header_get_def strip_def is_space_def)

text \<open>
  C1, amended. Each baseline is overwritten by its own check at the moment the check
  sees a difference, before any later step of the run: \<open>check_remote_file_changed\<close>
  stores the server's metadata exactly when it returns \<open>True\<close>, and
  \<open>check_file_hash_changed\<close> stores the hash of the database exactly when it returns
  \<open>True\<close>. A check that returns \<open>False\<close> or raises leaves the persisted files as they
  were, and neither check touches the other's file or the database.
\<close>

theorem C1_baseline_written_at_detection:
  "last_check_file (snd (check_remote_file_changed e w)) =
     (if fst (check_remote_file_changed e w) = Inr True then remote_check_info e
      else last_check_file w) \<and>
   hash_file (snd (check_remote_file_changed e w)) = hash_file w \<and>
   mmdb_file (snd (check_remote_file_changed e w)) = mmdb_file w \<and>
   hash_file (snd (check_file_hash_changed e w)) =
     (if fst (check_file_hash_changed e w) = Inr True then current_hash e w
      else hash_file w) \<and>
   last_check_file (snd (check_file_hash_changed e w)) = last_check_file w \<and>
   mmdb_file (snd (check_file_hash_changed e w)) = mmdb_file w"
  by (auto simp: check_remote_file_changed_def check_file_hash_changed_def Let_def
                 remote_check_info_def current_hash_def
           split: head_result.splits option.splits if_splits)

section \<open>An unreadable database\<close>

text \<open>
  C8. When the parsing library is missing, or the database file is missing or cannot be
  read, \<open>parse_mmdb_to_country_ipranges\<close> returns the empty dictionary. Whenever a run
  gets as far as parsing and the dictionary is empty, \<open>smart_update\<close> returns \<open>False\<close>
  there: up to that point it has only listed the sets and talked to the network, so no
  address set was applied and no rule was added or deleted.
\<close>

theorem C8_unreadable_database_fails_run:
  "(database_unreadable e w0 \<longrightarrow> parse_mmdb_to_country_ipranges e w0 = []) \<and>
   (smart_update_detect e w = (Proceed, w1) \<and> parse_mmdb_to_country_ipranges e w1 = [] \<longrightarrow>
      smart_update e w = Some (Inr False, w1) \<and> same_kernel w w1 \<and>
      list_all (\<lambda>ev. \<not> mutating ev \<and> \<not> set_step ev \<and> \<not> rule_append ev) (events_since w w1))"
proof (intro conjI impI)
  assume "database_unreadable e w0"
  then show "parse_mmdb_to_country_ipranges e w0 = []"
    by (auto simp: database_unreadable_def parse_mmdb_to_country_ipranges_def split: option.splits)
next
  assume a: "smart_update_detect e w = (Proceed, w1) \<and> parse_mmdb_to_country_ipranges e w1 = []"
  then show "smart_update e w = Some (Inr False, w1)"
    by (simp add: smart_update_def smart_update_rebuild_def)
  from a smart_update_detect_frame[of e w Proceed w1]
  show "same_kernel w w1" by simp
  from a smart_update_detect_frame[of e w Proceed w1]
  show "list_all (\<lambda>ev. \<not> mutating ev \<and> \<not> set_step ev \<and> \<not> rule_append ev) (events_since w w1)"
    by (simp add: extends_events)
qed

theorem C8_witness:
  "database_unreadable (example_env\<lparr>download_response := Downloaded ''bad''\<rparr>)
     (fresh_world\<lparr>mmdb_file := Some ''bad'', trace := [Kernel IpsetListNames True, NetDownload]\<rparr>) \<and>
   smart_update_detect (example_env\<lparr>download_response := Downloaded ''bad''\<rparr>) fresh_world =
     (Proceed, fresh_world\<lparr>mmdb_file := Some ''bad'', trace := [Kernel IpsetListNames True, NetDownload]\<rparr>) \<and>
   parse_mmdb_to_country_ipranges (example_env\<lparr>download_response := Downloaded ''bad''\<rparr>)
     (fresh_world\<lparr>mmdb_file := Some ''bad'', trace := [Kernel IpsetListNames True, NetDownload]\<rparr>) = [] \<and>
   smart_update (example_env\<lparr>download_response := Downloaded ''bad''\<rparr>) fresh_world =
     Some (Inr False, fresh_world\<lparr>mmdb_file := Some ''bad'', trace := [Kernel IpsetListNames True, NetDownload]\<rparr>)"
proof -
  let ?e = "example_env\<lparr>download_response := Downloaded ''bad''\<rparr>"
  let ?w1 = "fresh_world\<lparr>mmdb_file := Some ''bad'', trace := [Kernel IpsetListNames True, NetDownload]\<rparr>"
  have u: "database_unreadable ?e ?w1"
    by (simp add: database_unreadable_def example_env_def fresh_world_def)
  have d: "smart_update_detect ?e fresh_world = (Proceed, ?w1)"
    by (simp add: smart_update_detect_def run_cmd_list_names download_dbip_database_def
          example_env_def fresh_world_def ipset_count_of_def startswith_def)
  from C8_unreadable_database_fails_run[of ?e ?w1 fresh_world ?w1] u d
  show ?thesis by simp
qed

section \<open>Frames of the rebuild phases\<close>

lemma kernel_effect_ipt:
  "kernel_effect c w = Some (out, w') \<Longrightarrow> ipt_cmd c \<Longrightarrow> ipsets w' = ipsets w"
  by (cases c) (auto simp: set_chain_def split: option.splits if_splits family.splits)

lemma kernel_effect_ipset:
  "kernel_effect c w = Some (out, w') \<Longrightarrow> \<not> ipt_cmd c \<Longrightarrow>
     chain_v4 w' = chain_v4 w \<and> chain_v6 w' = chain_v6 w"
  by (cases c) (auto split: option.splits if_splits)

lemma run_cmd_ipt: "ipt_cmd c \<Longrightarrow> ipsets (snd (snd (run_cmd e c w))) = ipsets w"
  by (auto simp: run_cmd_def split: option.splits dest: kernel_effect_ipt)

lemma run_cmd_ipset:
  "\<not> ipt_cmd c \<Longrightarrow> chain_v4 (snd (snd (run_cmd e c w))) = chain_v4 w \<and>
                     chain_v6 (snd (snd (run_cmd e c w))) = chain_v6 w"
  by (auto simp: run_cmd_def split: option.splits dest: kernel_effect_ipset)

lemma run_checked_ipset:
  "list_all (\<lambda>c. \<not> ipt_cmd c) cmds \<Longrightarrow>
     chain_v4 (snd (run_checked e cmds w)) = chain_v4 w \<and>
     chain_v6 (snd (run_checked e cmds w)) = chain_v6 w"
proof (induction cmds arbitrary: w)
  case Nil
  show ?case by simp
next
  case (Cons c cs)
  obtain ok out w' where r: "run_cmd e c w = (ok, out, w')" by (cases "run_cmd e c w")
  from Cons.prems have c: "\<not> ipt_cmd c" and cs: "list_all (\<lambda>c. \<not> ipt_cmd c) cs" by simp_all
  have f: "chain_v4 w' = chain_v4 w \<and> chain_v6 w' = chain_v6 w"
    using run_cmd_ipset[OF c, of e w] r by simp
  show ?case using Cons.IH[OF cs, of w'] f r by auto
qed

lemma run_checked_ipt:
  "list_all ipt_cmd cmds \<Longrightarrow> ipsets (snd (run_checked e cmds w)) = ipsets w"
proof (induction cmds arbitrary: w)
  case Nil
  show ?case by simp
next
  case (Cons c cs)
  obtain ok out w' where r: "run_cmd e c w = (ok, out, w')" by (cases "run_cmd e c w")
  from Cons.prems have c: "ipt_cmd c" and cs: "list_all ipt_cmd cs" by simp_all
  have f: "ipsets w' = ipsets w" using run_cmd_ipt[OF c, of e w] r by simp
  show ?case using Cons.IH[OF cs, of w'] f r by auto
qed

lemma run_unchecked_ipset:
  "list_all (\<lambda>c. \<not> ipt_cmd c) cmds \<Longrightarrow>
     chain_v4 (run_unchecked e cmds w) = chain_v4 w \<and>
     chain_v6 (run_unchecked e cmds w) = chain_v6 w"
  by (induction cmds arbitrary: w) (simp_all add: run_cmd_ipset)

subsection \<open>Cleanup\<close>

lemma rules_cleaned_refl: "rules_cleaned w w"
  by (simp add: rules_cleaned_def same_files_refl extends_refl)

lemma rules_cleaned_trans: "rules_cleaned a b \<Longrightarrow> rules_cleaned b c \<Longrightarrow> rules_cleaned a c"
  by (auto simp: rules_cleaned_def intro: same_files_trans extends_trans)

lemma rules_cleaned_cmd:
  "ipt_cmd c \<Longrightarrow> (\<And>b. cleanup_event (Kernel c b)) \<Longrightarrow> rules_cleaned w (snd (snd (run_cmd e c w)))"
  by (simp add: rules_cleaned_def run_cmd_files run_cmd_countries run_cmd_ipt run_cmd_extends)

lemma delete_marked_rules_cleaned:
  assumes "delete_marked_rules e fam marker w = Some y"
  shows "rules_cleaned w (snd y)"
proof (rule delete_marked_rules.raw_induct
         [where P = "\<lambda>e fam marker w y. rules_cleaned w (snd y)", OF _ assms])
  fix loop e fam marker w y
  assume 1: "\<And>e fam marker w y. loop e fam marker w = Some y \<Longrightarrow> rules_cleaned w (snd y)"
       "(let result = run_cmd e (IptList fam) w
         in case scan_lines marker (fst (snd result)) of
              NotFound \<Rightarrow> Some (None, snd (snd result))
            | Found line_num \<Rightarrow>
                loop e fam marker (snd (snd (run_cmd e (IptDelete fam line_num) (snd (snd result)))))
            | ScanRaised \<Rightarrow> Some (Some IndexError, snd (snd result))) = Some y"
  define w1 where "w1 = snd (snd (run_cmd e (IptList fam) w))"
  have s1: "rules_cleaned w w1" unfolding w1_def by (rule rules_cleaned_cmd) simp_all
  show "rules_cleaned w (snd y)"
  proof (cases "scan_lines marker (fst (snd (run_cmd e (IptList fam) w)))")
    case NotFound
    with 1(2) s1 show ?thesis by (auto simp: Let_def w1_def)
  next
    case ScanRaised
    with 1(2) s1 show ?thesis by (auto simp: Let_def w1_def)
  next
    case (Found line_num)
    define w2 where "w2 = snd (snd (run_cmd e (IptDelete fam line_num) w1))"
    have s2: "rules_cleaned w1 w2" unfolding w2_def by (rule rules_cleaned_cmd) simp_all
    from 1(2) Found have "loop e fam marker w2 = Some y"
      by (simp add: Let_def w1_def w2_def)
    from 1(1)[OF this] s1 s2 show ?thesis by (blast intro: rules_cleaned_trans)
  qed
qed

lemma cleanup_rules_cleaned:
  "cleanup_rules e fam w = Some y \<Longrightarrow> rules_cleaned w (snd y)"
  by (auto simp: cleanup_rules_def split: option.splits prod.splits
           dest!: delete_marked_rules_cleaned intro: rules_cleaned_trans)

lemma destroy_geoip_sets_frame:
  "same_files w (destroy_geoip_sets e w) \<and>
   ALL_COUNTRIES (destroy_geoip_sets e w) = ALL_COUNTRIES w \<and>
   chain_v4 (destroy_geoip_sets e w) = chain_v4 w \<and>
   chain_v6 (destroy_geoip_sets e w) = chain_v6 w \<and>
   extends cleanup_event w (destroy_geoip_sets e w)"
proof -
  define w1 where "w1 = snd (snd (run_cmd e IpsetListNames w))"
  define names where "names = filter (\<lambda>s. startswith s ''country-'' \<or> startswith s ''geoip-'')
                         (fst (snd (run_cmd e IpsetListNames w)))"
  have d: "destroy_geoip_sets e w = run_unchecked e (map IpsetDestroy names) w1"
    by (simp add: destroy_geoip_sets_def Let_def w1_def names_def)
  have a1: "same_files w w1" "ALL_COUNTRIES w1 = ALL_COUNTRIES w"
       "chain_v4 w1 = chain_v4 w \<and> chain_v6 w1 = chain_v6 w" "extends cleanup_event w w1"
    unfolding w1_def
    by (simp_all add: run_cmd_files run_cmd_countries run_cmd_ipset run_cmd_extends)
  have a2: "same_files w1 (run_unchecked e (map IpsetDestroy names) w1)"
    by (rule run_unchecked_files)
  have a3: "extends cleanup_event w1 (run_unchecked e (map IpsetDestroy names) w1)"
    by (rule run_unchecked_extends) auto
  have a4: "chain_v4 (run_unchecked e (map IpsetDestroy names) w1) = chain_v4 w1 \<and>
            chain_v6 (run_unchecked e (map IpsetDestroy names) w1) = chain_v6 w1"
    by (rule run_unchecked_ipset) (simp add: list_all_iff)
  show ?thesis
    unfolding d using a1 a2 a3 a4
    by (auto simp: run_unchecked_countries intro: same_files_trans extends_trans)
qed

lemma cleanup_existing_ipsets_frame:
  assumes "cleanup_existing_ipsets e w = Some (b, w')"
  shows "b \<and> same_files w w' \<and> ALL_COUNTRIES w' = ALL_COUNTRIES w \<and> extends cleanup_event w w'"
proof -
  have R: "rules_cleaned a c \<Longrightarrow> same_files a c \<and> ALL_COUNTRIES c = ALL_COUNTRIES a \<and> extends cleanup_event a c"
    for a c by (simp add: rules_cleaned_def)
  show ?thesis
  proof (cases "cleanup_rules e V4 w")
    case None
    with assms show ?thesis by (simp add: cleanup_existing_ipsets_def)
  next
    case (Some y4)
    obtain err4 w1 where y4: "y4 = (err4, w1)" by (cases y4)
    have c1: "rules_cleaned w w1" using cleanup_rules_cleaned[OF Some] y4 by simp
    show ?thesis
    proof (cases err4)
      case (Some err)
      with assms \<open>cleanup_rules e V4 w = Some y4\<close> y4 c1 R[of w w1] show ?thesis
        by (auto simp: cleanup_existing_ipsets_def)
    next
      case None
      note e4 = None
      show ?thesis
      proof (cases "cleanup_rules e V6 w1")
        case None
        with assms \<open>cleanup_rules e V4 w = Some y4\<close> y4 e4 show ?thesis
          by (simp add: cleanup_existing_ipsets_def)
      next
        case (Some y6)
        obtain err6 w2 where y6: "y6 = (err6, w2)" by (cases y6)
        have c2: "rules_cleaned w1 w2" using cleanup_rules_cleaned[OF Some] y6 by simp
        have c12: "rules_cleaned w w2" using c1 c2 by (rule rules_cleaned_trans)
        show ?thesis
        proof (cases err6)
          case (Some err)
          with assms \<open>cleanup_rules e V4 w = Some y4\<close> \<open>cleanup_rules e V6 w1 = Some y6\<close>
            y4 y6 e4 c12 R[of w w2] show ?thesis
            by (auto simp: cleanup_existing_ipsets_def)
        next
          case None
          with assms \<open>cleanup_rules e V4 w = Some y4\<close> \<open>cleanup_rules e V6 w1 = Some y6\<close>
            y4 y6 e4 have w': "w' = destroy_geoip_sets e w2" and b: "b"
            by (auto simp: cleanup_existing_ipsets_def)
          from R[OF c12] destroy_geoip_sets_frame[of w2 e] show ?thesis
            unfolding w' using b by (auto intro: same_files_trans extends_trans)
        qed
      qed
    qed
  qed
qed

subsection \<open>Address-set manager\<close>

lemma run_checked_append:
  "run_checked e (xs @ ys) w =
     (if fst (run_checked e xs w) then run_checked e ys (snd (run_checked e xs w))
      else (False, snd (run_checked e xs w)))"
proof (induction xs arbitrary: w)
  case Nil
  show ?case by simp
next
  case (Cons c cs)
  obtain ok out w' where r: "run_cmd e c w = (ok, out, w')" by (cases "run_cmd e c w")
  show ?case using Cons.IH[of w'] r by simp
qed

lemma apply_country_run_checked:
  "apply_country e entry w = run_checked e (country_commands entry) w"
proof -
  define v4 where "v4 = filter (\<lambda>ip. \<not> is_ipv6 ip) (snd entry)"
  define v6 where "v6 = filter is_ipv6 (snd entry)"
  define c4 where "c4 = (if v4 \<noteq> [] then ipset_commands (set_name_v4 (fst entry)) V4 v4 else [])"
  define c6 where "c6 = (if v6 \<noteq> [] then ipset_commands (set_name_v6 (fst entry)) V6 v6 else [])"
  obtain ok4 w4 where r4: "run_checked e c4 w = (ok4, w4)" by (cases "run_checked e c4 w")
  have lhs: "apply_country e entry w = (if \<not> ok4 then (False, w4) else run_checked e c6 w4)"
  proof (cases "v4 = []")
    case True
    with r4 have "ok4" "w4 = w" by (simp_all add: c4_def)
    with True show ?thesis
      by (simp add: apply_country_def Let_def v4_def[symmetric] v6_def[symmetric] c6_def)
  next
    case False
    with r4 show ?thesis
      by (simp add: apply_country_def Let_def v4_def[symmetric] v6_def[symmetric] c4_def c6_def)
  qed
  have rhs: "run_checked e (country_commands entry) w = run_checked e (c4 @ c6) w"
    by (simp add: country_commands_def Let_def v4_def c4_def v6_def c6_def)
  show ?thesis unfolding lhs rhs run_checked_append using r4 by simp
qed

lemma apply_countries_run_checked:
  "apply_countries e m w = run_checked e (concat (map country_commands m)) w"
proof (induction m arbitrary: w)
  case Nil
  show ?case by simp
next
  case (Cons entry rest)
  obtain ok w' where r: "run_checked e (country_commands entry) w = (ok, w')"
    by (cases "run_checked e (country_commands entry) w")
  show ?case
    using Cons.IH[of w'] r
    by (cases ok) (simp_all add: apply_country_run_checked run_checked_append)
qed

lemma apply_native_ipset_run_checked:
  "apply_native_ipset e m w =
     run_checked e (concat (map country_commands m)) (w\<lparr>ALL_COUNTRIES := map fst m\<rparr>)"
  by (simp add: apply_native_ipset_def apply_countries_run_checked)

lemma country_commands_cases:
  assumes "c \<in> set (concat (map country_commands m))"
  shows "\<exists>cc ranges. (cc, ranges) \<in> set m \<and>
           (c \<in> set (ipset_commands (set_name_v4 cc) V4 (filter (\<lambda>ip. \<not> is_ipv6 ip) ranges)) \<or>
            c \<in> set (ipset_commands (set_name_v6 cc) V6 (filter is_ipv6 ranges)))"
proof -
  from assms obtain entry where en: "entry \<in> set m" "c \<in> set (country_commands entry)" by auto
  obtain cc ranges where e: "entry = (cc, ranges)" by (cases entry)
  from en(2) have
    "c \<in> set (ipset_commands (set_name_v4 cc) V4 (filter (\<lambda>ip. \<not> is_ipv6 ip) ranges)) \<or>
     c \<in> set (ipset_commands (set_name_v6 cc) V6 (filter is_ipv6 ranges))"
    unfolding e country_commands_def Let_def by (auto split: if_splits)
  with en(1) e show ?thesis by blast
qed

lemma country_commands_set_step: "c \<in> set (concat (map country_commands m)) \<Longrightarrow> set_step (Kernel c b)"
  by (drule country_commands_cases) (auto simp: ipset_commands_def)

lemma country_commands_not_ipt: "list_all (\<lambda>c. \<not> ipt_cmd c) (concat (map country_commands m))"
  unfolding list_all_iff
proof
  fix c assume "c \<in> set (concat (map country_commands m))"
  from country_commands_cases[OF this] show "\<not> ipt_cmd c"
    by (auto simp: ipset_commands_def)
qed

lemma extends_countries_update: "extends P (w\<lparr>ALL_COUNTRIES := cs\<rparr>) w' \<longleftrightarrow> extends P w w'"
  by (simp add: extends_def)

lemma events_since_countries_update: "events_since (w\<lparr>ALL_COUNTRIES := cs\<rparr>) w' = events_since w w'"
  by (simp add: events_since_def)

lemma apply_native_ipset_frame:
  assumes "apply_native_ipset e m w = (ok, w')"
  shows "same_files w w' \<and> ALL_COUNTRIES w' = map fst m \<and>
         chain_v4 w' = chain_v4 w \<and> chain_v6 w' = chain_v6 w \<and>
         extends set_step w w' \<and> (ok \<longleftrightarrow> \<not> list_ex failed (events_since w w'))"
proof -
  let ?w0 = "w\<lparr>ALL_COUNTRIES := map fst m\<rparr>"
  let ?cmds = "concat (map country_commands m)"
  from assms have r: "run_checked e ?cmds ?w0 = (ok, w')"
    by (simp add: apply_native_ipset_run_checked)
  have "same_files ?w0 w'" using run_checked_files[of ?w0 e ?cmds] r by simp
  then have f: "same_files w w'" by (simp add: same_files_def)
  have c: "ALL_COUNTRIES w' = map fst m" using run_checked_countries[of e ?cmds ?w0] r by simp
  have ch: "chain_v4 w' = chain_v4 w \<and> chain_v6 w' = chain_v6 w"
    using run_checked_ipset[OF country_commands_not_ipt, of e m ?w0] r by simp
  have "extends set_step ?w0 (snd (run_checked e ?cmds ?w0))"
    by (rule run_checked_extends) (rule country_commands_set_step)
  then have x: "extends set_step w w'" using r by (simp add: extends_countries_update)
  have o: "ok \<longleftrightarrow> \<not> list_ex failed (events_since w w')"
    using run_checked_failed_event[OF r] by (simp add: events_since_countries_update)
  from f c ch x o show ?thesis by blast
qed

lemma run_checked_events_subset:
  assumes "run_checked e cmds w = (ok, w')" and "Kernel c b \<in> set (events_since w w')"
  shows "c \<in> set cmds"
proof -
  have "extends (\<lambda>ev. \<exists>c \<in> set cmds. \<exists>b. ev = Kernel c b) w (snd (run_checked e cmds w))"
    by (rule run_checked_extends) blast
  from extends_events[OF this] assms show ?thesis
    by (auto simp: list_all_iff)
qed

subsection \<open>Rule chain builder: frame\<close>

text \<open>What holds across any part of \<open>setup_firewall_rules\<close>.\<close>

lemma rules_built_refl: "rules_built w w"
  by (simp add: rules_built_def same_files_refl extends_refl)

lemma rules_built_trans: "rules_built a b \<Longrightarrow> rules_built b c \<Longrightarrow> rules_built a c"
  by (auto simp: rules_built_def intro: same_files_trans extends_trans)

lemma rules_built_probe: "rules_built w (snd (snd (run_cmd e (IpsetListSet n) w)))"
proof -
  have "same_kernel w (snd (snd (run_cmd e (IpsetListSet n) w)))"
    by (rule run_cmd_readonly) simp
  then show ?thesis
    by (simp add: rules_built_def run_cmd_files run_cmd_countries run_cmd_extends same_kernel_def)
qed

lemma rules_built_appends:
  assumes "list_all (\<lambda>c. \<exists>fam r. c = IptAppend fam r) cmds"
  shows "rules_built w (snd (run_checked e cmds w))"
proof -
  from assms have i: "list_all ipt_cmd cmds" by (auto simp: list_all_iff)
  have x: "extends setup_event w (snd (run_checked e cmds w))"
    by (rule run_checked_extends) (use assms in \<open>auto simp: list_all_iff\<close>)
  show ?thesis
    by (simp add: rules_built_def run_checked_files run_checked_countries run_checked_ipt[OF i] x)
qed

lemma country_family_rules_built: "rules_built w (snd (country_family_rules e v fam country w))"
proof -
  define n where "n = (case fam of V4 \<Rightarrow> set_name_v4 country | V6 \<Rightarrow> set_name_v6 country)"
  define w1 where "w1 = snd (snd (run_cmd e (IpsetListSet n) w))"
  have p: "rules_built w w1" unfolding w1_def by (rule rules_built_probe)
  have a: "rules_built w1 (snd (run_checked e (map (IptAppend fam) (country_pair v fam country)) w1))"
    by (rule rules_built_appends) (simp add: list_all_iff)
  show ?thesis
    using p a
    by (auto simp: country_family_rules_def Let_def n_def[symmetric] w1_def[symmetric]
             intro: rules_built_trans)
qed

lemma country_rules_built: "rules_built w (snd (country_rules e v countries w))"
proof (induction countries arbitrary: w)
  case Nil
  show ?case by (simp add: rules_built_refl)
next
  case (Cons country rest)
  obtain ok4 w1 where r4: "country_family_rules e v V4 country w = (ok4, w1)"
    by (cases "country_family_rules e v V4 country w")
  obtain ok6 w2 where r6: "country_family_rules e v V6 country w1 = (ok6, w2)"
    by (cases "country_family_rules e v V6 country w1")
  have b1: "rules_built w w1" using country_family_rules_built[of w e v V4 country] r4 by simp
  have b2: "rules_built w1 w2" using country_family_rules_built[of w1 e v V6 country] r6 by simp
  have b3: "rules_built w2 (snd (country_rules e v rest w2))" by (rule Cons.IH)
  show ?case
    using r4 r6 b1 b2 b3
    by (cases ok4; cases ok6) (auto intro: rules_built_trans)
qed

lemma setup_firewall_rules_built: "rules_built w (snd (setup_firewall_rules e allowed w))"
proof -
  let ?c1 = "[IptAppend V4 stateful_rule, IptAppend V6 stateful_rule]"
  let ?c2 = "[IptAppend V4 localhost_rule, IptAppend V6 localhost_rule]"
  let ?c3 = "map (\<lambda>network. IptAppend V4 (private_rule network)) PRIVATE_NETWORKS_V4
             @ map (\<lambda>network. IptAppend V6 (private_rule network)) PRIVATE_NETWORKS_V6"
  let ?c6 = "[IptAppend V4 default_log_rule, IptAppend V4 default_drop_rule,
              IptAppend V6 default_log_rule, IptAppend V6 default_drop_rule]"
  obtain ok1 w1 where r1: "run_checked e ?c1 w = (ok1, w1)" by (cases "run_checked e ?c1 w")
  obtain ok2 w2 where r2: "run_checked e ?c2 w1 = (ok2, w2)" by (cases "run_checked e ?c2 w1")
  obtain ok3 w3 where r3: "run_checked e ?c3 w2 = (ok3, w3)" by (cases "run_checked e ?c3 w2")
  obtain ok4 w4 where r4: "country_rules e ACCEPT allowed w3 = (ok4, w4)"
    by (cases "country_rules e ACCEPT allowed w3")
  obtain ok5 w5 where
    r5: "country_rules e DROP (filter (\<lambda>c. c \<notin> set allowed) (ALL_COUNTRIES w3)) w4 = (ok5, w5)"
    by (cases "country_rules e DROP (filter (\<lambda>c. c \<notin> set allowed) (ALL_COUNTRIES w3)) w4")
  obtain ok6 w6 where r6: "run_checked e ?c6 w5 = (ok6, w6)" by (cases "run_checked e ?c6 w5")
  have b1: "rules_built w w1"
    using rules_built_appends[of ?c1 w e] r1 by (simp del: run_checked.simps)
  have b2: "rules_built w1 w2"
    using rules_built_appends[of ?c2 w1 e] r2 by (simp del: run_checked.simps)
  have b3: "rules_built w2 w3"
    using rules_built_appends[of ?c3 w2 e] r3 by (auto simp: list_all_iff simp del: run_checked.simps)
  have b4: "rules_built w3 w4" using country_rules_built[of w3 e ACCEPT allowed] r4 by simp
  have b5: "rules_built w4 w5"
    using country_rules_built[of w4 e DROP "filter (\<lambda>c. c \<notin> set allowed) (ALL_COUNTRIES w3)"] r5
    by simp
  have b6: "rules_built w5 w6"
    using rules_built_appends[of ?c6 w5 e] r6 by (simp del: run_checked.simps)
  have b12: "rules_built w w2" using b1 b2 by (rule rules_built_trans)
  have b13: "rules_built w w3" using b12 b3 by (rule rules_built_trans)
  have b14: "rules_built w w4" using b13 b4 by (rule rules_built_trans)
  have b15: "rules_built w w5" using b14 b5 by (rule rules_built_trans)
  have b16: "rules_built w w6" using b15 b6 by (rule rules_built_trans)
  show ?thesis
    unfolding setup_firewall_rules_def Let_def r1 r2 r3 r4 r5 r6
    using b1 b12 b13 b14 b15 b16 r1 r2 r3 r4 r5 r6
    by (cases ok1; cases ok2; cases ok3; cases ok4; cases ok5; simp del: run_checked.simps)
qed

section \<open>A failing address-set step\<close>

lemma smart_update_rebuild_events:
  assumes "smart_update_rebuild e w = Some (r, w')"
  shows "(list_ex (\<lambda>ev. set_step ev \<and> failed ev) (events_since w w') \<longrightarrow>
            r = Inr False \<and> \<not> list_ex rule_append (events_since w w')) \<and>
         (\<exists>evs. trace w' = trace w @ evs)"
proof (cases "parse_mmdb_to_country_ipranges e w = []")
  case True
  with assms show ?thesis by (simp add: smart_update_rebuild_def events_since_def)
next
  case False
  define m where "m = parse_mmdb_to_country_ipranges e w"
  from assms False obtain cleaned w1 where c: "cleanup_existing_ipsets e w = Some (cleaned, w1)"
    by (auto simp: smart_update_rebuild_def Let_def split: option.splits)
  obtain ok2 w2 where a: "apply_native_ipset e m w1 = (ok2, w2)"
    by (cases "apply_native_ipset e m w1")
  obtain ok3 w3 where s: "setup_firewall_rules e ALLOWED_COUNTRIES w2 = (ok3, w3)"
    by (cases "setup_firewall_rules e ALLOWED_COUNTRIES w2")
  have x1: "extends cleanup_event w w1" using cleanup_existing_ipsets_frame[OF c] by simp
  have x2: "extends set_step w1 w2" and f2: "ok2 \<longleftrightarrow> \<not> list_ex failed (events_since w1 w2)"
    using apply_native_ipset_frame[OF a] by simp_all
  have x3: "extends setup_event w2 w3"
    using setup_firewall_rules_built[of w2 e ALLOWED_COUNTRIES] s by (simp add: rules_built_def)
  have e12: "events_since w w2 = events_since w w1 @ events_since w1 w2"
    using x1 x2 by (rule events_since_trans)
  have x12: "extends (\<lambda>ev. cleanup_event ev \<or> set_step ev) w w2"
    using extends_mono[OF x1, of "\<lambda>ev. cleanup_event ev \<or> set_step ev"]
          extends_mono[OF x2, of "\<lambda>ev. cleanup_event ev \<or> set_step ev"]
    by (auto intro: extends_trans)
  have e13: "events_since w w3 = events_since w w2 @ events_since w2 w3"
    using x12 x3 by (rule events_since_trans)
  have n1: "\<And>ev. ev \<in> set (events_since w w1) \<Longrightarrow> \<not> set_step ev \<and> \<not> rule_append ev"
  proof -
    fix ev assume "ev \<in> set (events_since w w1)"
    with extends_events[OF x1] have "cleanup_event ev" by (simp add: list_all_iff)
    then show "\<not> set_step ev \<and> \<not> rule_append ev"
      by (induction ev rule: cleanup_event.induct) simp_all
  qed
  have n2: "\<And>ev. ev \<in> set (events_since w1 w2) \<Longrightarrow> \<not> rule_append ev"
  proof -
    fix ev assume "ev \<in> set (events_since w1 w2)"
    with extends_events[OF x2] have "set_step ev" by (simp add: list_all_iff)
    then show "\<not> rule_append ev"
      by (induction ev rule: set_step.induct) simp_all
  qed
  have n3: "\<And>ev. ev \<in> set (events_since w2 w3) \<Longrightarrow> \<not> set_step ev"
  proof -
    fix ev assume "ev \<in> set (events_since w2 w3)"
    with extends_events[OF x3] have "setup_event ev" by (simp add: list_all_iff)
    then show "\<not> set_step ev"
      by (induction ev rule: setup_event.induct) simp_all
  qed
  show ?thesis
  proof (cases ok2)
    case False
    with assms \<open>parse_mmdb_to_country_ipranges e w \<noteq> []\<close> c a
    have r: "r = Inr False" and w': "w' = w2"
      by (auto simp: smart_update_rebuild_def Let_def m_def)
    have "\<not> list_ex rule_append (events_since w w2)"
      unfolding e12 using n1 n2 by (auto simp: list_ex_iff)
    with r w' extends_trace_eq[OF x12] show ?thesis by auto
  next
    case True
    with assms \<open>parse_mmdb_to_country_ipranges e w \<noteq> []\<close> c a s
    have w': "w' = w3"
      by (auto simp: smart_update_rebuild_def Let_def m_def split: bool.splits)
    from True f2 have "\<not> list_ex failed (events_since w1 w2)" by simp
    then have "\<not> list_ex (\<lambda>ev. set_step ev \<and> failed ev) (events_since w w3)"
      unfolding e13 e12 using n1 n3 by (auto simp: list_ex_iff)
    moreover have "trace w3 = trace w @ events_since w w2 @ events_since w2 w3"
      using extends_trace_eq[OF x12] extends_trace_eq[OF x3] by simp
    ultimately show ?thesis using w' by auto
  qed
qed

text \<open>
  C6. \<open>apply_native_ipset\<close> issues only create, flush and bulk-populate commands, and it
  returns \<open>False\<close> exactly when one of them failed. In any run of \<open>smart_update\<close> in
  which such a step failed, the run returns \<open>False\<close> and no rule was appended: the rule
  chain builder, whose first action is to append a rule, was not called.
\<close>

theorem C6_failed_set_step_aborts_run:
  "(apply_native_ipset e m w = (ok, w') \<longrightarrow>
      list_all set_step (events_since w w') \<and>
      (ok \<longleftrightarrow> \<not> list_ex failed (events_since w w'))) \<and>
   (smart_update e w0 = Some (r, w1) \<and>
    list_ex (\<lambda>ev. set_step ev \<and> failed ev) (events_since w0 w1) \<longrightarrow>
      r = Inr False \<and> \<not> list_ex rule_append (events_since w0 w1))"
proof (intro conjI impI)
  assume a: "apply_native_ipset e m w = (ok, w')"
  from apply_native_ipset_frame[OF a] show "list_all set_step (events_since w w')"
    by (simp add: extends_events)
  from apply_native_ipset_frame[OF a] show "ok \<longleftrightarrow> \<not> list_ex failed (events_since w w')"
    by simp
next
  assume a: "smart_update e w0 = Some (r, w1) \<and>
             list_ex (\<lambda>ev. set_step ev \<and> failed ev) (events_since w0 w1)"
  obtain d wd where d: "smart_update_detect e w0 = (d, wd)" by (cases "smart_update_detect e w0")
  have xd: "extends (\<lambda>ev. \<not> mutating ev \<and> \<not> set_step ev \<and> \<not> rule_append ev) w0 wd"
    using smart_update_detect_frame[OF d] by simp
  have nd: "\<And>ev. ev \<in> set (events_since w0 wd) \<Longrightarrow> \<not> set_step ev \<and> \<not> rule_append ev"
    using extends_events[OF xd] by (simp add: list_all_iff)
  have "r = Inr False \<and> \<not> list_ex rule_append (events_since w0 w1)"
  proof (cases d)
    case (Stop r')
    with a d have "w1 = wd" by (simp add: smart_update_def)
    with a nd show ?thesis by (auto simp: list_ex_iff)
  next
    case Proceed
    with a d have rb: "smart_update_rebuild e wd = Some (r, w1)" by (simp add: smart_update_def)
    from smart_update_rebuild_events[OF rb] obtain evs where
      evs: "trace w1 = trace wd @ evs" by blast
    then have xr: "extends (\<lambda>ev. True) wd w1" by (auto simp: extends_def list_all_iff)
    have es: "events_since w0 w1 = events_since w0 wd @ events_since wd w1"
      using xd xr by (rule events_since_trans)
    from a have "list_ex (\<lambda>ev. set_step ev \<and> failed ev) (events_since wd w1)"
      unfolding es using nd by (auto simp: list_ex_iff)
    with smart_update_rebuild_events[OF rb]
    have "r = Inr False" "\<not> list_ex rule_append (events_since wd w1)" by simp_all
    then show ?thesis unfolding es using nd by (auto simp: list_ex_iff)
  qed
  then show "r = Inr False" and "\<not> list_ex rule_append (events_since w0 w1)" by simp_all
qed

theorem C6_witness:
  "apply_native_ipset (example_env\<lparr>kernel_rejects := (\<lambda>n c. c = IpsetFlush ''country-KR'')\<rparr>)
     example_ranges cleaned_world =
     (False, cleaned_world\<lparr>ipsets := [(''country-KR'', [])], ALL_COUNTRIES := [''KR'', ''US''],
        trace := trace cleaned_world @
          [Kernel (IpsetCreate ''country-KR'' V4 1) True, Kernel (IpsetFlush ''country-KR'') False]\<rparr>) \<and>
   list_ex failed (events_since cleaned_world
     (cleaned_world\<lparr>ipsets := [(''country-KR'', [])], ALL_COUNTRIES := [''KR'', ''US''],
        trace := trace cleaned_world @
          [Kernel (IpsetCreate ''country-KR'' V4 1) True, Kernel (IpsetFlush ''country-KR'') False]\<rparr>)) \<and>
   smart_update (example_env\<lparr>kernel_rejects := (\<lambda>n c. c = IpsetFlush ''country-KR'')\<rparr>) reboot_world =
     Some (Inr False,
       cleaned_world\<lparr>ipsets := [(''country-KR'', [])], ALL_COUNTRIES := [''KR'', ''US''],
        trace := trace cleaned_world @
          [Kernel (IpsetCreate ''country-KR'' V4 1) True, Kernel (IpsetFlush ''country-KR'') False]\<rparr>) \<and>
   \<not> list_ex rule_append (events_since reboot_world
     (cleaned_world\<lparr>ipsets := [(''country-KR'', [])], ALL_COUNTRIES := [''KR'', ''US''],
        trace := trace cleaned_world @
          [Kernel (IpsetCreate ''country-KR'' V4 1) True, Kernel (IpsetFlush ''country-KR'') False]\<rparr>))"
proof -
  let ?e = "example_env\<lparr>kernel_rejects := (\<lambda>n c. c = IpsetFlush ''country-KR'')\<rparr>"
  let ?w = "cleaned_world\<lparr>ipsets := [(''country-KR'', [])], ALL_COUNTRIES := [''KR'', ''US''],
        trace := trace cleaned_world @
          [Kernel (IpsetCreate ''country-KR'' V4 1) True, Kernel (IpsetFlush ''country-KR'') False]\<rparr>"
  have a: "apply_native_ipset ?e example_ranges cleaned_world = (False, ?w)"
    by code_simp
  have s: "smart_update ?e reboot_world = Some (Inr False, ?w)"
    by code_simp
  have f: "list_ex (\<lambda>ev. set_step ev \<and> failed ev) (events_since reboot_world ?w)"
    by code_simp
  from C6_failed_set_step_aborts_run[of ?e example_ranges cleaned_world False ?w reboot_world "Inr False" ?w]
    a s f
  show ?thesis by simp
qed

section \<open>Prefixes are routed by address family\<close>

lemma ipset_commands_restore:
  "IpsetRestore adds \<in> set (ipset_commands n fam ranges) \<Longrightarrow> adds = map (\<lambda>ip. (n, ip)) ranges"
  by (auto simp: ipset_commands_def)

lemma set_name_v4_v6_distinct: "length cc = 2 \<Longrightarrow> length cc' = 2 \<Longrightarrow> set_name_v4 cc \<noteq> set_name_v6 cc'"
proof
  assume l: "length cc = 2" "length cc' = 2" and eq: "set_name_v4 cc = set_name_v6 cc'"
  from eq have "length (set_name_v4 cc) = length (set_name_v6 cc')" by simp
  with l show False by (simp add: set_name_v4_def set_name_v6_def)
qed

text \<open>
  C5. Every \<^verbatim>\<open>add\<close> line that \<open>apply_native_ipset\<close> sends to the kernel puts a prefix of
  some country of the dictionary into that country's \<^verbatim>\<open>-v6\<close> set when the prefix contains
  a colon, and into its IPv4 set when it does not. When the function returns \<open>True\<close>,
  every prefix of every country has been sent so, in a command that succeeded. For
  two-letter country codes the two families of names do not meet: no line adds a
  prefix with a colon to a set that carries the IPv4 name of a country, nor a prefix
  without one to a set that carries an IPv6 name.
\<close>

theorem C5_prefixes_partitioned_by_family:
  "apply_native_ipset e m w = (ok, w') \<longrightarrow>
     (\<forall>adds b n ip.
        Kernel (IpsetRestore adds) b \<in> set (events_since w w') \<and> (n, ip) \<in> set adds \<longrightarrow>
        (\<exists>cc ranges. (cc, ranges) \<in> set m \<and> ip \<in> set ranges \<and>
           n = (if is_ipv6 ip then set_name_v6 cc else set_name_v4 cc))) \<and>
     (ok \<longrightarrow>
        (\<forall>cc ranges ip. (cc, ranges) \<in> set m \<and> ip \<in> set ranges \<longrightarrow>
           (\<exists>adds. Kernel (IpsetRestore adds) True \<in> set (events_since w w') \<and>
              ((if is_ipv6 ip then set_name_v6 cc else set_name_v4 cc), ip) \<in> set adds))) \<and>
     ((\<forall>cc \<in> fst ` set m. length cc = 2) \<longrightarrow>
        (\<forall>adds b n ip cc.
           Kernel (IpsetRestore adds) b \<in> set (events_since w w') \<and> (n, ip) \<in> set adds \<and>
           cc \<in> fst ` set m \<longrightarrow>
           (n = set_name_v4 cc \<longrightarrow> \<not> is_ipv6 ip) \<and> (n = set_name_v6 cc \<longrightarrow> is_ipv6 ip)))"
proof
  assume a: "apply_native_ipset e m w = (ok, w')"
  let ?w0 = "w\<lparr>ALL_COUNTRIES := map fst m\<rparr>"
  let ?cmds = "concat (map country_commands m)"
  from a have r: "run_checked e ?cmds ?w0 = (ok, w')"
    by (simp add: apply_native_ipset_run_checked)
  have sound: "\<exists>cc ranges. (cc, ranges) \<in> set m \<and> ip \<in> set ranges \<and>
           n = (if is_ipv6 ip then set_name_v6 cc else set_name_v4 cc)"
    if ev: "Kernel (IpsetRestore adds) b \<in> set (events_since w w')" and mem: "(n, ip) \<in> set adds"
    for adds b n ip
  proof -
    from ev have "Kernel (IpsetRestore adds) b \<in> set (events_since ?w0 w')"
      by (simp add: events_since_countries_update)
    from run_checked_events_subset[OF r this] have "IpsetRestore adds \<in> set ?cmds" .
    from country_commands_cases[OF this] obtain cc ranges where
      cr: "(cc, ranges) \<in> set m" and
      alt: "IpsetRestore adds \<in> set (ipset_commands (set_name_v4 cc) V4 (filter (\<lambda>ip. \<not> is_ipv6 ip) ranges)) \<or>
            IpsetRestore adds \<in> set (ipset_commands (set_name_v6 cc) V6 (filter is_ipv6 ranges))"
      by blast
    from alt mem have "ip \<in> set ranges \<and> n = (if is_ipv6 ip then set_name_v6 cc else set_name_v4 cc)"
      by (auto dest!: ipset_commands_restore)
    with cr show ?thesis by blast
  qed
  have complete: "\<exists>adds. Kernel (IpsetRestore adds) True \<in> set (events_since w w') \<and>
              ((if is_ipv6 ip then set_name_v6 cc else set_name_v4 cc), ip) \<in> set adds"
    if ok: "ok" and cr: "(cc, ranges) \<in> set m" and ip: "ip \<in> set ranges" for cc ranges ip
  proof -
    from r ok have "trace w' = trace ?w0 @ map (\<lambda>c. Kernel c True) ?cmds"
      by (auto dest: run_checked_trace_ok)
    then have es: "events_since w w' = map (\<lambda>c. Kernel c True) ?cmds"
      by (simp add: events_since_def)
    let ?n = "if is_ipv6 ip then set_name_v6 cc else set_name_v4 cc"
    let ?rs = "if is_ipv6 ip then filter is_ipv6 ranges else filter (\<lambda>ip. \<not> is_ipv6 ip) ranges"
    have "IpsetRestore (map (\<lambda>ip. (?n, ip)) ?rs) \<in> set (country_commands (cc, ranges))"
      using ip by (auto simp: country_commands_def Let_def ipset_commands_def filter_empty_conv)
    with cr have "IpsetRestore (map (\<lambda>ip. (?n, ip)) ?rs) \<in> set ?cmds" by auto
    then have "Kernel (IpsetRestore (map (\<lambda>ip. (?n, ip)) ?rs)) True \<in> set (events_since w w')"
      unfolding es by (simp add: image_iff)
    moreover have "(?n, ip) \<in> set (map (\<lambda>ip. (?n, ip)) ?rs)" using ip by auto
    ultimately show ?thesis by blast
  qed
  have disjoint: "(n = set_name_v4 cc \<longrightarrow> \<not> is_ipv6 ip) \<and> (n = set_name_v6 cc \<longrightarrow> is_ipv6 ip)"
    if two: "\<forall>cc \<in> fst ` set m. length cc = 2"
      and ev: "Kernel (IpsetRestore adds) b \<in> set (events_since w w')" and mem: "(n, ip) \<in> set adds"
      and cc: "cc \<in> fst ` set m"
    for adds b n ip cc
  proof -
    from sound[OF ev mem] obtain cc0 ranges where
      c0: "(cc0, ranges) \<in> set m" and n: "n = (if is_ipv6 ip then set_name_v6 cc0 else set_name_v4 cc0)"
      by blast
    from c0 two have l0: "length cc0 = 2" by force
    from cc two have l: "length cc = 2" by blast
    from n set_name_v4_v6_distinct[OF l l0] set_name_v4_v6_distinct[OF l0 l]
    show ?thesis by (auto split: if_splits)
  qed
  from sound complete disjoint
  show "(\<forall>adds b n ip.
        Kernel (IpsetRestore adds) b \<in> set (events_since w w') \<and> (n, ip) \<in> set adds \<longrightarrow>
        (\<exists>cc ranges. (cc, ranges) \<in> set m \<and> ip \<in> set ranges \<and>
           n = (if is_ipv6 ip then set_name_v6 cc else set_name_v4 cc))) \<and>
     (ok \<longrightarrow>
        (\<forall>cc ranges ip. (cc, ranges) \<in> set m \<and> ip \<in> set ranges \<longrightarrow>
           (\<exists>adds. Kernel (IpsetRestore adds) True \<in> set (events_since w w') \<and>
              ((if is_ipv6 ip then set_name_v6 cc else set_name_v4 cc), ip) \<in> set adds))) \<and>
     ((\<forall>cc \<in> fst ` set m. length cc = 2) \<longrightarrow>
        (\<forall>adds b n ip cc.
           Kernel (IpsetRestore adds) b \<in> set (events_since w w') \<and> (n, ip) \<in> set adds \<and>
           cc \<in> fst ` set m \<longrightarrow>
           (n = set_name_v4 cc \<longrightarrow> \<not> is_ipv6 ip) \<and> (n = set_name_v6 cc \<longrightarrow> is_ipv6 ip)))"
    by blast
qed

theorem C5_witness:
  "apply_native_ipset example_env example_ranges cleaned_world = (True, applied_world) \<and>
   (''KR'', [''1.0.0.0/24'', ''2001:db8::/32'']) \<in> set example_ranges \<and>
   is_ipv6 ''2001:db8::/32'' \<and> \<not> is_ipv6 ''1.0.0.0/24'' \<and>
   (\<exists>adds. Kernel (IpsetRestore adds) True \<in> set (events_since cleaned_world applied_world) \<and>
      (set_name_v6 ''KR'', ''2001:db8::/32'') \<in> set adds) \<and>
   (\<exists>adds. Kernel (IpsetRestore adds) True \<in> set (events_since cleaned_world applied_world) \<and>
      (set_name_v4 ''KR'', ''1.0.0.0/24'') \<in> set adds)"
proof -
  have a: "apply_native_ipset example_env example_ranges cleaned_world = (True, applied_world)"
    by code_simp
  have m: "(''KR'', [''1.0.0.0/24'', ''2001:db8::/32'']) \<in> set example_ranges"
    by (simp add: example_ranges_def)
  have v: "is_ipv6 ''2001:db8::/32''" "\<not> is_ipv6 ''1.0.0.0/24''"
    by (simp_all add: is_ipv6_def)
  from C5_prefixes_partitioned_by_family[of example_env example_ranges cleaned_world True applied_world] a
  have c: "\<forall>cc ranges ip. (cc, ranges) \<in> set example_ranges \<and> ip \<in> set ranges \<longrightarrow>
           (\<exists>adds. Kernel (IpsetRestore adds) True \<in> set (events_since cleaned_world applied_world) \<and>
              ((if is_ipv6 ip then set_name_v6 cc else set_name_v4 cc), ip) \<in> set adds)"
    by blast
  from c[rule_format, of "''KR''" "[''1.0.0.0/24'', ''2001:db8::/32'']" "''2001:db8::/32''"]
       c[rule_format, of "''KR''" "[''1.0.0.0/24'', ''2001:db8::/32'']" "''1.0.0.0/24''"]
       a m v
  show ?thesis by simp
qed

section \<open>The order of the generated chain\<close>

lemma part_nil: "part [] full False"
  by (simp add: part_def)

lemma part_full: "part full full ok"
  by (simp add: part_def)

lemma part_seq: "part x F True \<Longrightarrow> part y G ok \<Longrightarrow> part (x @ y) (F @ G) ok"
  by (auto simp: part_def)

lemma part_stop: "part x F False \<Longrightarrow> part x (F @ G) False"
  by (auto simp: part_def prefix_def)

lemma part_True: "part x F True \<Longrightarrow> x = F"
  by (simp add: part_def)

lemma grows_refl: "grows w w [] []"
  by (simp add: grows_def)

lemma grows_trans: "grows a b x4 x6 \<Longrightarrow> grows b c y4 y6 \<Longrightarrow> grows a c (x4 @ y4) (x6 @ y6)"
  by (simp add: grows_def)

lemma run_cmd_append_grows:
  "grows w (snd (snd (run_cmd e (IptAppend fam r) w)))
     (if fst (run_cmd e (IptAppend fam r) w) \<and> fam = V4 then [r] else [])
     (if fst (run_cmd e (IptAppend fam r) w) \<and> fam = V6 then [r] else [])"
  by (cases fam) (auto simp: run_cmd_def grows_def chain_def set_chain_def)

lemma run_checked_appends_grow:
  "run_checked e (map (\<lambda>fr. IptAppend (fst fr) (snd fr)) frs) w = (ok, w') \<Longrightarrow>
     \<exists>x4 x6. grows w w' x4 x6 \<and> part x4 (rules_of V4 frs) ok \<and> part x6 (rules_of V6 frs) ok"
proof (induction frs arbitrary: w)
  case Nil
  then show ?case by (auto simp: grows_refl rules_of_def part_def)
next
  case (Cons fr frs)
  obtain fam r where fr: "fr = (fam, r)" by (cases fr)
  define ok0 where "ok0 = fst (run_cmd e (IptAppend fam r) w)"
  define w1 where "w1 = snd (snd (run_cmd e (IptAppend fam r) w))"
  have g0: "grows w w1 (if ok0 \<and> fam = V4 then [r] else []) (if ok0 \<and> fam = V6 then [r] else [])"
    unfolding ok0_def w1_def by (rule run_cmd_append_grows)
  show ?case
  proof (cases ok0)
    case False
    with Cons.prems fr have "ok = False" "w' = w1"
      by (auto simp: ok0_def w1_def split: prod.splits)
    with g0 False have "grows w w' [] [] \<and> part [] (rules_of V4 (fr # frs)) ok \<and>
        part [] (rules_of V6 (fr # frs)) ok"
      by (simp add: part_def)
    then show ?thesis by blast
  next
    case True
    with Cons.prems fr have rest: "run_checked e (map (\<lambda>fr. IptAppend (fst fr) (snd fr)) frs) w1 = (ok, w')"
      by (auto simp: ok0_def w1_def split: prod.splits)
    from Cons.IH[OF rest] obtain x4 x6 where
      g: "grows w1 w' x4 x6" and p4: "part x4 (rules_of V4 frs) ok" and p6: "part x6 (rules_of V6 frs) ok"
      by blast
    from grows_trans[OF g0 g] True
    have "grows w w' ((if fam = V4 then [r] else []) @ x4) ((if fam = V6 then [r] else []) @ x6)"
      by simp
    moreover have "part ((if fam = V4 then [r] else []) @ x4) (rules_of V4 (fr # frs)) ok"
      using p4 fr by (auto simp: part_def rules_of_def)
    moreover have "part ((if fam = V6 then [r] else []) @ x6) (rules_of V6 (fr # frs)) ok"
      using p6 fr by (auto simp: part_def rules_of_def)
    ultimately show ?thesis by blast
  qed
qed

lemma country_family_rules_grow:
  assumes "country_family_rules e v fam country w = (ok, w')"
  shows "\<exists>present x. (present = [] \<or> present = [country]) \<and>
           grows w w' (if fam = V4 then x else []) (if fam = V6 then x else []) \<and>
           part x (concat (map (country_pair v fam) present)) ok"
proof -
  define n where "n = (case fam of V4 \<Rightarrow> set_name_v4 country | V6 \<Rightarrow> set_name_v6 country)"
  define found where "found = fst (run_cmd e (IpsetListSet n) w)"
  define w1 where "w1 = snd (snd (run_cmd e (IpsetListSet n) w))"
  have "same_kernel w w1" unfolding w1_def by (rule run_cmd_readonly) simp
  then have g1: "grows w w1 [] []"
    by (simp add: grows_def same_kernel_def w1_def run_cmd_countries)
  show ?thesis
  proof (cases found)
    case False
    with assms have "ok" "w' = w1"
      by (auto simp: country_family_rules_def Let_def n_def[symmetric] found_def w1_def)
    with g1 have "grows w w' (if fam = V4 then [] else []) (if fam = V6 then [] else []) \<and>
                  part [] (concat (map (country_pair v fam) [])) ok"
      by (simp add: part_def)
    then show ?thesis by blast
  next
    case True
    let ?frs = "map (\<lambda>r. (fam, r)) (country_pair v fam country)"
    have m: "map (IptAppend fam) (country_pair v fam country) = map (\<lambda>fr. IptAppend (fst fr) (snd fr)) ?frs"
      by simp
    from True assms have "run_checked e (map (IptAppend fam) (country_pair v fam country)) w1 = (ok, w')"
      by (auto simp: country_family_rules_def Let_def n_def[symmetric] found_def w1_def)
    then have "run_checked e (map (\<lambda>fr. IptAppend (fst fr) (snd fr)) ?frs) w1 = (ok, w')"
      unfolding m .
    from run_checked_appends_grow[OF this] obtain x4 x6 where
      g: "grows w1 w' x4 x6" and p4: "part x4 (rules_of V4 ?frs) ok" and p6: "part x6 (rules_of V6 ?frs) ok"
      by blast
    have same: "rules_of fam ?frs = country_pair v fam country"
      by (simp add: rules_of_def filter_map comp_def)
    have other: "fam' \<noteq> fam \<Longrightarrow> rules_of fam' ?frs = []" for fam'
      by (auto simp: rules_of_def filter_map comp_def filter_empty_conv)
    from grows_trans[OF g1 g] have g': "grows w w' x4 x6" by simp
    show ?thesis
    proof (cases fam)
      case V4
      with p6 other[of V6] have "x6 = []" by (simp add: part_def)
      with g' p4 same V4 have "grows w w' (if fam = V4 then x4 else []) (if fam = V6 then x4 else []) \<and>
          part x4 (concat (map (country_pair v fam) [country])) ok"
        by simp
      then show ?thesis by blast
    next
      case V6
      with p4 other[of V4] have "x4 = []" by (simp add: part_def)
      with g' p6 same V6 have "grows w w' (if fam = V4 then x6 else []) (if fam = V6 then x6 else []) \<and>
          part x6 (concat (map (country_pair v fam) [country])) ok"
        by simp
      then show ?thesis by blast
    qed
  qed
qed

lemma country_rules_grow:
  "country_rules e v countries w = (ok, w') \<Longrightarrow>
     \<exists>a4 a6 x4 x6. subseq a4 countries \<and> subseq a6 countries \<and> grows w w' x4 x6 \<and>
        part x4 (concat (map (country_pair v V4) a4)) ok \<and>
        part x6 (concat (map (country_pair v V6) a6)) ok"
proof (induction countries arbitrary: w)
  case Nil
  then have "subseq [] [] \<and> subseq [] [] \<and> grows w w' [] [] \<and>
        part [] (concat (map (country_pair v V4) [])) ok \<and>
        part [] (concat (map (country_pair v V6) [])) ok"
    by (auto simp: grows_refl part_def)
  then show ?case by blast
next
  case (Cons c rest)
  obtain ok4 w1 where r4: "country_family_rules e v V4 c w = (ok4, w1)"
    by (cases "country_family_rules e v V4 c w")
  from country_family_rules_grow[OF r4] obtain p4 x where
    p4: "p4 = [] \<or> p4 = [c]" and g4: "grows w w1 x []"
    and q4: "part x (concat (map (country_pair v V4) p4)) ok4"
    by auto
  have s4: "subseq p4 (c # rest)" using p4 by auto
  show ?case
  proof (cases ok4)
    case False
    with Cons.prems r4 have "ok = False" "w' = w1" by auto
    with g4 q4 False s4 have "subseq p4 (c # rest) \<and> subseq [] (c # rest) \<and> grows w w' x [] \<and>
        part x (concat (map (country_pair v V4) p4)) ok \<and>
        part [] (concat (map (country_pair v V6) [])) ok"
      by (simp add: part_def)
    then show ?thesis by blast
  next
    case True
    note ok4 = True
    obtain ok6 w2 where r6: "country_family_rules e v V6 c w1 = (ok6, w2)"
      by (cases "country_family_rules e v V6 c w1")
    from country_family_rules_grow[OF r6] obtain p6 y where
      p6: "p6 = [] \<or> p6 = [c]" and g6: "grows w1 w2 [] y"
      and q6: "part y (concat (map (country_pair v V6) p6)) ok6"
      by auto
    have s6: "subseq p6 (c # rest)" using p6 by auto
    from grows_trans[OF g4 g6] have g46: "grows w w2 x y" by simp
    show ?thesis
    proof (cases ok6)
      case False
      with Cons.prems r4 r6 ok4 have "ok = False" "w' = w2" by auto
      with g46 q4 q6 False s4 s6 have "subseq p4 (c # rest) \<and> subseq p6 (c # rest) \<and> grows w w' x y \<and>
          part x (concat (map (country_pair v V4) p4)) ok \<and>
          part y (concat (map (country_pair v V6) p6)) ok"
        by (simp add: part_def)
      then show ?thesis by blast
    next
      case True
      with Cons.prems r4 r6 ok4 have rest: "country_rules e v rest w2 = (ok, w')" by auto
      from Cons.IH[OF rest] obtain a4 a6 x4 x6 where
        sa4: "subseq a4 rest" and sa6: "subseq a6 rest" and g: "grows w2 w' x4 x6"
        and pa4: "part x4 (concat (map (country_pair v V4) a4)) ok"
        and pa6: "part x6 (concat (map (country_pair v V6) a6)) ok"
        by blast
      have t4: "subseq (p4 @ a4) (c # rest)" using p4 sa4 by auto
      have t6: "subseq (p6 @ a6) (c # rest)" using p6 sa6 by auto
      have u4: "part (x @ x4) (concat (map (country_pair v V4) (p4 @ a4))) ok"
        using part_seq[OF _ pa4, of x "concat (map (country_pair v V4) p4)"] q4 ok4 by simp
      have u6: "part (y @ x6) (concat (map (country_pair v V6) (p6 @ a6))) ok"
        using part_seq[OF _ pa6, of y "concat (map (country_pair v V6) p6)"] q6 True by simp
      from grows_trans[OF g46 g] t4 t6 u4 u6 show ?thesis by blast
    qed
  qed
qed

lemma fixed_rules_grow:
  assumes "run_checked e (map (\<lambda>fr. IptAppend (fst fr) (snd fr)) frs) w = (ok, w')"
  obtains x4 x6 where "grows w w' x4 x6" "part x4 (rules_of V4 frs) ok" "part x6 (rules_of V6 frs) ok"
  using run_checked_appends_grow[OF assms] by blast

lemma six_phase_part:
  assumes "part p S ok1" "part q L ok2" "part s P ok3" "part t A ok4" "part u B ok5" "part v T ok6"
  shows "part (if \<not> ok1 then p else if \<not> ok2 then p @ q else if \<not> ok3 then p @ q @ s
               else if \<not> ok4 then p @ q @ s @ t else if \<not> ok5 then p @ q @ s @ t @ u
               else p @ q @ s @ t @ u @ v)
              (S @ L @ P @ A @ B @ T)
              (ok1 \<and> ok2 \<and> ok3 \<and> ok4 \<and> ok5 \<and> ok6)"
proof (cases ok1)
  case False
  with assms(1) have "part p (S @ L @ P @ A @ B @ T) False" by (auto intro: part_stop)
  with False show ?thesis by simp
next
  case o1: True
  with assms(1) have a1: "part p S True" by simp
  show ?thesis
  proof (cases ok2)
    case False
    with assms(2) have "part q (L @ P @ A @ B @ T) False" by (auto intro: part_stop)
    from part_seq[OF a1 this] o1 False show ?thesis by simp
  next
    case o2: True
    with assms(2) have a2: "part q L True" by simp
    show ?thesis
    proof (cases ok3)
      case False
      with assms(3) have "part s (P @ A @ B @ T) False" by (auto intro: part_stop)
      from part_seq[OF a1 part_seq[OF a2 this]] o1 o2 False show ?thesis by simp
    next
      case o3: True
      with assms(3) have a3: "part s P True" by simp
      show ?thesis
      proof (cases ok4)
        case False
        with assms(4) have "part t (A @ B @ T) False" by (auto intro: part_stop)
        from part_seq[OF a1 part_seq[OF a2 part_seq[OF a3 this]]] o1 o2 o3 False
        show ?thesis by simp
      next
        case o4: True
        with assms(4) have a4: "part t A True" by simp
        show ?thesis
        proof (cases ok5)
          case False
          with assms(5) have "part u (B @ T) False" by (auto intro: part_stop)
          from part_seq[OF a1 part_seq[OF a2 part_seq[OF a3 part_seq[OF a4 this]]]] o1 o2 o3 o4 False
          show ?thesis by simp
        next
          case o5: True
          with assms(5) have a5: "part u B True" by simp
          from part_seq[OF a1 part_seq[OF a2 part_seq[OF a3 part_seq[OF a4 part_seq[OF a5 assms(6)]]]]]
            o1 o2 o3 o4 o5
          show ?thesis by simp
        qed
      qed
    qed
  qed
qed

text \<open>The chain of one family, put together from the six phases.\<close>

lemma generated_chain_phases:
  "generated_chain fam a b =
     ([stateful_rule] @ [localhost_rule] @ map private_rule (private_networks fam))
     @ concat (map (country_pair ACCEPT fam) a)
     @ concat (map (country_pair DROP fam) b)
     @ [default_log_rule, default_drop_rule]"
  by (simp add: generated_chain_def)

lemma setup_firewall_rules_shape:
  assumes "setup_firewall_rules e allowed w = (ok, w')"
  shows "\<exists>a4 b4 a6 b6 x4 x6.
           subseq a4 allowed \<and> subseq a6 allowed \<and>
           subseq b4 (filter (\<lambda>c. c \<notin> set allowed) (ALL_COUNTRIES w)) \<and>
           subseq b6 (filter (\<lambda>c. c \<notin> set allowed) (ALL_COUNTRIES w)) \<and>
           grows w w' x4 x6 \<and>
           part x4 (generated_chain V4 a4 b4) ok \<and> part x6 (generated_chain V6 a6 b6) ok"
proof -
  let ?f1 = "[(V4, stateful_rule), (V6, stateful_rule)]"
  let ?f2 = "[(V4, localhost_rule), (V6, localhost_rule)]"
  let ?f3 = "map (\<lambda>n. (V4, private_rule n)) PRIVATE_NETWORKS_V4 @ map (\<lambda>n. (V6, private_rule n)) PRIVATE_NETWORKS_V6"
  let ?f6 = "[(V4, default_log_rule), (V4, default_drop_rule), (V6, default_log_rule), (V6, default_drop_rule)]"
  let ?A = "\<lambda>frs. map (\<lambda>fr. IptAppend (fst fr) (snd fr)) frs"
  let ?blocked = "filter (\<lambda>c. c \<notin> set allowed) (ALL_COUNTRIES w)"
  let ?H = "\<lambda>fam. [stateful_rule] @ [localhost_rule] @ map private_rule (private_networks fam)"
  let ?T = "[default_log_rule, default_drop_rule]"
  have c1: "[IptAppend V4 stateful_rule, IptAppend V6 stateful_rule] = ?A ?f1" by simp
  have c2: "[IptAppend V4 localhost_rule, IptAppend V6 localhost_rule] = ?A ?f2" by simp
  have c3: "map (\<lambda>network. IptAppend V4 (private_rule network)) PRIVATE_NETWORKS_V4
            @ map (\<lambda>network. IptAppend V6 (private_rule network)) PRIVATE_NETWORKS_V6 = ?A ?f3"
    by (simp add: comp_def)
  have c6: "[IptAppend V4 default_log_rule, IptAppend V4 default_drop_rule,
             IptAppend V6 default_log_rule, IptAppend V6 default_drop_rule] = ?A ?f6" by simp
  have R1: "rules_of V4 ?f1 = [stateful_rule]" "rules_of V6 ?f1 = [stateful_rule]"
    by (simp_all add: rules_of_def)
  have R2: "rules_of V4 ?f2 = [localhost_rule]" "rules_of V6 ?f2 = [localhost_rule]"
    by (simp_all add: rules_of_def)
  have R3: "rules_of V4 ?f3 = map private_rule (private_networks V4)"
           "rules_of V6 ?f3 = map private_rule (private_networks V6)"
    by (simp_all add: rules_of_def private_networks_def filter_map comp_def)
  have R6: "rules_of V4 ?f6 = ?T" "rules_of V6 ?f6 = ?T"
    by (simp_all add: rules_of_def)
  let ?l1 = "[IptAppend V4 stateful_rule, IptAppend V6 stateful_rule]"
  let ?l2 = "[IptAppend V4 localhost_rule, IptAppend V6 localhost_rule]"
  let ?l3 = "map (\<lambda>network. IptAppend V4 (private_rule network)) PRIVATE_NETWORKS_V4
            @ map (\<lambda>network. IptAppend V6 (private_rule network)) PRIVATE_NETWORKS_V6"
  let ?l6 = "[IptAppend V4 default_log_rule, IptAppend V4 default_drop_rule,
             IptAppend V6 default_log_rule, IptAppend V6 default_drop_rule]"
  obtain ok1 w1 where l1: "run_checked e ?l1 w = (ok1, w1)" by (cases "run_checked e ?l1 w")
  obtain ok2 w2 where l2: "run_checked e ?l2 w1 = (ok2, w2)" by (cases "run_checked e ?l2 w1")
  obtain ok3 w3 where l3: "run_checked e ?l3 w2 = (ok3, w3)" by (cases "run_checked e ?l3 w2")
  obtain ok4 w4 where r4: "country_rules e ACCEPT allowed w3 = (ok4, w4)"
    by (cases "country_rules e ACCEPT allowed w3")
  obtain ok5 w5 where r5: "country_rules e DROP (filter (\<lambda>c. c \<notin> set allowed) (ALL_COUNTRIES w3)) w4 = (ok5, w5)"
    by (cases "country_rules e DROP (filter (\<lambda>c. c \<notin> set allowed) (ALL_COUNTRIES w3)) w4")
  obtain ok6 w6 where l6: "run_checked e ?l6 w5 = (ok6, w6)" by (cases "run_checked e ?l6 w5")
  have result: "(ok, w') =
      (if \<not> ok1 then (False, w1) else if \<not> ok2 then (False, w2) else if \<not> ok3 then (False, w3)
       else if \<not> ok4 then (False, w4) else if \<not> ok5 then (False, w5) else (ok6, w6))"
    using assms l1 l2 l3 r4 r5 l6 unfolding setup_firewall_rules_def Let_def
    by (cases ok1; cases ok2; cases ok3; cases ok4; cases ok5; simp del: run_checked.simps)
  have r1: "run_checked e (?A ?f1) w = (ok1, w1)" using l1 unfolding c1 .
  have r2: "run_checked e (?A ?f2) w1 = (ok2, w2)" using l2 unfolding c2 .
  have r3: "run_checked e (?A ?f3) w2 = (ok3, w3)" using l3 unfolding c3 .
  have r6: "run_checked e (?A ?f6) w5 = (ok6, w6)" using l6 unfolding c6 .
  from fixed_rules_grow[OF r1] obtain p4 p6 where
    g1: "grows w w1 p4 p6" and p1: "part p4 [stateful_rule] ok1" "part p6 [stateful_rule] ok1"
    unfolding R1 by blast
  from fixed_rules_grow[OF r2] obtain q4 q6 where
    g2: "grows w1 w2 q4 q6" and p2: "part q4 [localhost_rule] ok2" "part q6 [localhost_rule] ok2"
    unfolding R2 by blast
  from fixed_rules_grow[OF r3] obtain s4 s6 where
    g3: "grows w2 w3 s4 s6" and p3: "part s4 (map private_rule (private_networks V4)) ok3"
      "part s6 (map private_rule (private_networks V6)) ok3"
    unfolding R3 by blast
  from country_rules_grow[OF r4] obtain a4 a6 t4 t6 where
    sa: "subseq a4 allowed" "subseq a6 allowed" and g4: "grows w3 w4 t4 t6"
    and p4: "part t4 (concat (map (country_pair ACCEPT V4) a4)) ok4"
            "part t6 (concat (map (country_pair ACCEPT V6) a6)) ok4"
    by blast
  have ac: "ALL_COUNTRIES w3 = ALL_COUNTRIES w"
    using g1 g2 g3 by (simp add: grows_def)
  from country_rules_grow[OF r5] obtain b4 b6 u4 u6 where
    sb: "subseq b4 ?blocked" "subseq b6 ?blocked" and g5: "grows w4 w5 u4 u6"
    and p5: "part u4 (concat (map (country_pair DROP V4) b4)) ok5"
            "part u6 (concat (map (country_pair DROP V6) b6)) ok5"
    unfolding ac by blast
  from fixed_rules_grow[OF r6] obtain v4 v6 where
    g6: "grows w5 w6 v4 v6" and p6: "part v4 ?T ok6" "part v6 ?T ok6"
    unfolding R6 by blast
  have g12: "grows w w2 (p4 @ q4) (p6 @ q6)" using grows_trans[OF g1 g2] .
  have g13: "grows w w3 (p4 @ q4 @ s4) (p6 @ q6 @ s6)" using grows_trans[OF g12 g3] by simp
  have g14: "grows w w4 (p4 @ q4 @ s4 @ t4) (p6 @ q6 @ s6 @ t6)" using grows_trans[OF g13 g4] by simp
  have g15: "grows w w5 (p4 @ q4 @ s4 @ t4 @ u4) (p6 @ q6 @ s6 @ t6 @ u6)"
    using grows_trans[OF g14 g5] by simp
  have g16: "grows w w6 (p4 @ q4 @ s4 @ t4 @ u4 @ v4) (p6 @ q6 @ s6 @ t6 @ u6 @ v6)"
    using grows_trans[OF g15 g6] by simp
  define X4 where "X4 = (if \<not> ok1 then p4 else if \<not> ok2 then p4 @ q4 else if \<not> ok3 then p4 @ q4 @ s4
               else if \<not> ok4 then p4 @ q4 @ s4 @ t4 else if \<not> ok5 then p4 @ q4 @ s4 @ t4 @ u4
               else p4 @ q4 @ s4 @ t4 @ u4 @ v4)"
  define X6 where "X6 = (if \<not> ok1 then p6 else if \<not> ok2 then p6 @ q6 else if \<not> ok3 then p6 @ q6 @ s6
               else if \<not> ok4 then p6 @ q6 @ s6 @ t6 else if \<not> ok5 then p6 @ q6 @ s6 @ t6 @ u6
               else p6 @ q6 @ s6 @ t6 @ u6 @ v6)"
  have okeq: "ok = (ok1 \<and> ok2 \<and> ok3 \<and> ok4 \<and> ok5 \<and> ok6)"
    using result by (auto split: if_splits)
  have G: "grows w w' X4 X6"
    using result g1 g12 g13 g14 g15 g16 unfolding X4_def X6_def
    by (auto split: if_splits)
  have P4: "part X4 (generated_chain V4 a4 b4) ok"
    unfolding X4_def okeq generated_chain_def
    using six_phase_part[OF p1(1) p2(1) p3(1) p4(1) p5(1) p6(1)] by simp
  have P6: "part X6 (generated_chain V6 a6 b6) ok"
    unfolding X6_def okeq generated_chain_def
    using six_phase_part[OF p1(2) p2(2) p3(2) p4(2) p5(2) p6(2)] by simp
  from G P4 P6 have "\<exists>x4 x6. grows w w' x4 x6 \<and>
        part x4 (generated_chain V4 a4 b4) ok \<and> part x6 (generated_chain V6 a6 b6) ok"
    by blast
  with sa sb show ?thesis by blast
qed

lemma stateful_rule_not_later:
  "stateful_rule \<notin> set (tl (generated_chain fam a b))"
  by (auto simp: generated_chain_def stateful_rule_def localhost_rule_def private_rule_def
        country_pair_def country_log_rule_def country_verdict_rule_def
        default_log_rule_def default_drop_rule_def Let_def)

lemma stateful_rule_first:
  assumes "i < length (generated_chain fam a b)" and "generated_chain fam a b ! i = stateful_rule"
  shows "i = 0"
proof (rule ccontr)
  assume "i \<noteq> 0"
  then obtain k where k: "i = Suc k" by (cases i) auto
  have g: "generated_chain fam a b = stateful_rule # tl (generated_chain fam a b)"
    by (simp add: generated_chain_def)
  from assms k have "k < length (tl (generated_chain fam a b))" by simp
  moreover from assms(2) k g have "tl (generated_chain fam a b) ! k = stateful_rule"
    by (metis nth_Cons_Suc)
  ultimately have "stateful_rule \<in> set (tl (generated_chain fam a b))"
    by (metis nth_mem)
  with stateful_rule_not_later show False by blast
qed

lemma generated_chain_ends:
  "generated_chain fam a b ! 0 = stateful_rule \<and>
   last (generated_chain fam a b) = default_drop_rule \<and>
   1 < length (generated_chain fam a b)"
  by (simp add: generated_chain_def)

lemma stateful_before_default_drop:
  assumes p: "prefix xs (generated_chain fam a b)"
    and i: "i < length xs" "xs ! i = stateful_rule"
    and j: "j < length xs" "xs ! j = default_drop_rule"
  shows "i < j"
proof -
  from p obtain zs where g: "generated_chain fam a b = xs @ zs" by (auto simp: prefix_def)
  from i g have "i < length (generated_chain fam a b)" "generated_chain fam a b ! i = stateful_rule"
    by (simp_all add: nth_append)
  then have i0: "i = 0" by (rule stateful_rule_first)
  have "stateful_rule \<noteq> default_drop_rule"
    by (simp add: stateful_rule_def default_drop_rule_def)
  have "j \<noteq> 0"
  proof
    assume "j = 0"
    with i(2) j(2) i0 have "stateful_rule = default_drop_rule" by simp
    with \<open>stateful_rule \<noteq> default_drop_rule\<close> show False by simp
  qed
  with i0 show ?thesis by simp
qed

subsection \<open>The kinds of the generated rules\<close>

lemma classify_fixed:
  "classify stateful_rule = StatefulAccept"
  "classify localhost_rule = LoopbackAccept"
  "classify default_log_rule = DefaultLog"
  "classify default_drop_rule = UnconditionalDrop"
  by (simp_all add: classify_def stateful_rule_def localhost_rule_def default_log_rule_def
        default_drop_rule_def)

lemma classify_private:
  "map classify (map private_rule (private_networks V4)) =
     map SourceAccept [''10.0.0.0/8'', ''172.16.0.0/12'', ''192.168.0.0/16'', ''169.254.0.0/16'']"
  "map classify (map private_rule (private_networks V6)) = map SourceAccept [''fc00::/7'', ''fe80::/10'']"
  by (simp_all add: classify_def private_rule_def private_networks_def PRIVATE_NETWORKS_V4_def
        PRIVATE_NETWORKS_V6_def)

lemma classify_country_pair:
  "map classify (country_pair ACCEPT fam cc) = [SetLog (country_set fam cc), SetAccept (country_set fam cc)]"
  "map classify (country_pair DROP fam cc) = [SetLog (country_set fam cc), SetDrop (country_set fam cc)]"
proof -
  show "map classify (country_pair ACCEPT fam cc) = [SetLog (country_set fam cc), SetAccept (country_set fam cc)]"
    by (cases fam)
       (simp_all add: classify_def country_pair_def country_log_rule_def country_verdict_rule_def
          country_set_def set_name_v4_def set_name_v6_def verdict_name_def verdict_comment_def Let_def)
  show "map classify (country_pair DROP fam cc) = [SetLog (country_set fam cc), SetDrop (country_set fam cc)]"
    by (cases fam)
       (simp_all add: classify_def country_pair_def country_log_rule_def country_verdict_rule_def
          country_set_def set_name_v4_def set_name_v6_def verdict_name_def verdict_comment_def Let_def)
qed

lemma classify_country_pairs:
  "map classify (concat (map (country_pair ACCEPT fam) cs)) =
     concat (map (\<lambda>cc. [SetLog (country_set fam cc), SetAccept (country_set fam cc)]) cs)"
  "map classify (concat (map (country_pair DROP fam) cs)) =
     concat (map (\<lambda>cc. [SetLog (country_set fam cc), SetDrop (country_set fam cc)]) cs)"
  by (induction cs) (simp_all add: classify_country_pair)

lemma classify_generated_chain:
  "map classify (generated_chain fam a b) = chain_order fam a b"
  by (cases fam)
     (simp_all add: generated_chain_def chain_order_def classify_fixed classify_private
        classify_country_pairs del: map_map)

lemma chain_order_stateful_first:
  assumes p: "prefix ks (chain_order fam a b)"
    and i: "i < length ks" "ks ! i = StatefulAccept"
    and j: "j < length ks" "ks ! j = UnconditionalDrop"
  shows "i < j"
proof -
  from p obtain zs where g: "chain_order fam a b = ks @ zs" by (auto simp: prefix_def)
  have t: "StatefulAccept \<notin> set (tl (chain_order fam a b))"
    by (cases fam) (auto simp: chain_order_def)
  have h: "chain_order fam a b = StatefulAccept # tl (chain_order fam a b)"
    by (simp add: chain_order_def)
  have i0: "i = 0"
  proof (rule ccontr)
    assume "i \<noteq> 0"
    then obtain k where k: "i = Suc k" by (cases i) auto
    from i g have "i < length (chain_order fam a b)" "chain_order fam a b ! i = StatefulAccept"
      by (simp_all add: nth_append)
    with k h have "k < length (tl (chain_order fam a b))" "tl (chain_order fam a b) ! k = StatefulAccept"
      by (simp_all add: nth_tl)
    then have "StatefulAccept \<in> set (tl (chain_order fam a b))" by (metis nth_mem)
    with t show False by simp
  qed
  have "j \<noteq> 0"
  proof
    assume "j = 0"
    with i j i0 show False by simp
  qed
  with i0 show ?thesis by simp
qed

text \<open>
  C2. Whatever \<open>setup_firewall_rules\<close> returns, it has only added rules at the end of the
  two chains, and what it added to a chain is an initial piece of the generated chain
  of that family. Read back rule by rule (\<open>classify\<close>: target and match of each rule),
  the added rules are an initial piece of: the stateful accept, the loopback accept, one
  accept per private network, then for each allowed country whose set was found a log
  followed by an accept on that country's set (in the order of the allow-list), then for
  each blocked country whose set was found a log followed by a drop on that country's
  set (in the order of the database), then the default log and the unconditional drop.
  When it returns \<open>True\<close> the piece is the whole of it, which starts with the stateful
  accept and ends with the default drop. In what was added, every position of a stateful
  accept is strictly before every position of a default drop, whether the two rules are
  recognised by their text or by their kind.
\<close>

theorem C2_generated_chain_order:
  "setup_firewall_rules e allowed w = (ok, w') \<longrightarrow>
     (\<exists>a4 b4 a6 b6 x4 x6.
        subseq a4 allowed \<and> subseq a6 allowed \<and>
        subseq b4 (filter (\<lambda>c. c \<notin> set allowed) (ALL_COUNTRIES w)) \<and>
        subseq b6 (filter (\<lambda>c. c \<notin> set allowed) (ALL_COUNTRIES w)) \<and>
        chain_v4 w' = chain_v4 w @ x4 \<and> chain_v6 w' = chain_v6 w @ x6 \<and>
        prefix x4 (generated_chain V4 a4 b4) \<and> prefix x6 (generated_chain V6 a6 b6) \<and>
        prefix (map classify x4) (chain_order V4 a4 b4) \<and>
        prefix (map classify x6) (chain_order V6 a6 b6) \<and>
        (ok \<longrightarrow> x4 = generated_chain V4 a4 b4 \<and> x6 = generated_chain V6 a6 b6 \<and>
                map classify x4 = chain_order V4 a4 b4 \<and> map classify x6 = chain_order V6 a6 b6 \<and>
                x4 ! 0 = stateful_rule \<and> last x4 = default_drop_rule \<and> 1 < length x4 \<and>
                x6 ! 0 = stateful_rule \<and> last x6 = default_drop_rule \<and> 1 < length x6) \<and>
        (\<forall>i j. i < length x4 \<and> j < length x4 \<and>
                x4 ! i = stateful_rule \<and> x4 ! j = default_drop_rule \<longrightarrow> i < j) \<and>
        (\<forall>i j. i < length x6 \<and> j < length x6 \<and>
                x6 ! i = stateful_rule \<and> x6 ! j = default_drop_rule \<longrightarrow> i < j) \<and>
        (\<forall>i j. i < length x4 \<and> j < length x4 \<and>
                classify (x4 ! i) = StatefulAccept \<and> classify (x4 ! j) = UnconditionalDrop \<longrightarrow> i < j) \<and>
        (\<forall>i j. i < length x6 \<and> j < length x6 \<and>
                classify (x6 ! i) = StatefulAccept \<and> classify (x6 ! j) = UnconditionalDrop \<longrightarrow> i < j))"
proof
  assume a: "setup_firewall_rules e allowed w = (ok, w')"
  from setup_firewall_rules_shape[OF a] obtain a4 b4 a6 b6 x4 x6 where
    s: "subseq a4 allowed" "subseq a6 allowed"
       "subseq b4 (filter (\<lambda>c. c \<notin> set allowed) (ALL_COUNTRIES w))"
       "subseq b6 (filter (\<lambda>c. c \<notin> set allowed) (ALL_COUNTRIES w))"
    and g: "grows w w' x4 x6"
    and p4: "part x4 (generated_chain V4 a4 b4) ok" and p6: "part x6 (generated_chain V6 a6 b6) ok"
    by blast
  from g have c: "chain_v4 w' = chain_v4 w @ x4" "chain_v6 w' = chain_v6 w @ x6"
    by (simp_all add: grows_def)
  from p4 p6 have pr: "prefix x4 (generated_chain V4 a4 b4)" "prefix x6 (generated_chain V6 a6 b6)"
    by (simp_all add: part_def)
  have k4: "prefix (map classify x4) (chain_order V4 a4 b4)"
    using map_mono_prefix[OF pr(1), of classify] by (simp only: classify_generated_chain)
  have k6: "prefix (map classify x6) (chain_order V6 a6 b6)"
    using map_mono_prefix[OF pr(2), of classify] by (simp only: classify_generated_chain)
  have full: "ok \<longrightarrow> x4 = generated_chain V4 a4 b4 \<and> x6 = generated_chain V6 a6 b6 \<and>
                map classify x4 = chain_order V4 a4 b4 \<and> map classify x6 = chain_order V6 a6 b6 \<and>
                x4 ! 0 = stateful_rule \<and> last x4 = default_drop_rule \<and> 1 < length x4 \<and>
                x6 ! 0 = stateful_rule \<and> last x6 = default_drop_rule \<and> 1 < length x6"
    using p4 p6 generated_chain_ends[of V4 a4 b4] generated_chain_ends[of V6 a6 b6]
    by (simp add: part_def classify_generated_chain)
  have o4: "\<forall>i j. i < length x4 \<and> j < length x4 \<and>
                x4 ! i = stateful_rule \<and> x4 ! j = default_drop_rule \<longrightarrow> i < j"
    using stateful_before_default_drop[OF pr(1)] by blast
  have o6: "\<forall>i j. i < length x6 \<and> j < length x6 \<and>
                x6 ! i = stateful_rule \<and> x6 ! j = default_drop_rule \<longrightarrow> i < j"
    using stateful_before_default_drop[OF pr(2)] by blast
  have q4: "\<forall>i j. i < length x4 \<and> j < length x4 \<and>
                classify (x4 ! i) = StatefulAccept \<and> classify (x4 ! j) = UnconditionalDrop \<longrightarrow> i < j"
    using chain_order_stateful_first[OF k4] by (simp add: nth_map)
  have q6: "\<forall>i j. i < length x6 \<and> j < length x6 \<and>
                classify (x6 ! i) = StatefulAccept \<and> classify (x6 ! j) = UnconditionalDrop \<longrightarrow> i < j"
    using chain_order_stateful_first[OF k6] by (simp add: nth_map)
  from s c pr k4 k6 full o4 o6 q4 q6
  show "\<exists>a4 b4 a6 b6 x4 x6.
        subseq a4 allowed \<and> subseq a6 allowed \<and>
        subseq b4 (filter (\<lambda>c. c \<notin> set allowed) (ALL_COUNTRIES w)) \<and>
        subseq b6 (filter (\<lambda>c. c \<notin> set allowed) (ALL_COUNTRIES w)) \<and>
        chain_v4 w' = chain_v4 w @ x4 \<and> chain_v6 w' = chain_v6 w @ x6 \<and>
        prefix x4 (generated_chain V4 a4 b4) \<and> prefix x6 (generated_chain V6 a6 b6) \<and>
        prefix (map classify x4) (chain_order V4 a4 b4) \<and>
        prefix (map classify x6) (chain_order V6 a6 b6) \<and>
        (ok \<longrightarrow> x4 = generated_chain V4 a4 b4 \<and> x6 = generated_chain V6 a6 b6 \<and>
                map classify x4 = chain_order V4 a4 b4 \<and> map classify x6 = chain_order V6 a6 b6 \<and>
                x4 ! 0 = stateful_rule \<and> last x4 = default_drop_rule \<and> 1 < length x4 \<and>
                x6 ! 0 = stateful_rule \<and> last x6 = default_drop_rule \<and> 1 < length x6) \<and>
        (\<forall>i j. i < length x4 \<and> j < length x4 \<and>
                x4 ! i = stateful_rule \<and> x4 ! j = default_drop_rule \<longrightarrow> i < j) \<and>
        (\<forall>i j. i < length x6 \<and> j < length x6 \<and>
                x6 ! i = stateful_rule \<and> x6 ! j = default_drop_rule \<longrightarrow> i < j) \<and>
        (\<forall>i j. i < length x4 \<and> j < length x4 \<and>
                classify (x4 ! i) = StatefulAccept \<and> classify (x4 ! j) = UnconditionalDrop \<longrightarrow> i < j) \<and>
        (\<forall>i j. i < length x6 \<and> j < length x6 \<and>
                classify (x6 ! i) = StatefulAccept \<and> classify (x6 ! j) = UnconditionalDrop \<longrightarrow> i < j)"
    by (intro exI[of _ a4] exI[of _ b4] exI[of _ a6] exI[of _ b6] exI[of _ x4] exI[of _ x6] conjI)
qed

section \<open>A kernel that rejects nothing\<close>

lemma run_cmd_good:
  "never_rejects e \<Longrightarrow>
     run_cmd e c w =
       (case kernel_effect c w of
          None \<Rightarrow> (False, [''''], w\<lparr>trace := trace w @ [Kernel c False]\<rparr>)
        | Some (out, w') \<Rightarrow> (True, out, w'\<lparr>trace := trace w @ [Kernel c True]\<rparr>))"
  by (simp add: run_cmd_def never_rejects_def)

lemma appends_good:
  "never_rejects e \<Longrightarrow> fst (run_checked e (map (\<lambda>fr. IptAppend (fst fr) (snd fr)) frs) w)"
proof (induction frs arbitrary: w)
  case Nil
  show ?case by simp
next
  case (Cons fr frs)
  have "fst (run_cmd e (IptAppend (fst fr) (snd fr)) w)"
    by (simp add: run_cmd_good[OF Cons.prems])
  then show ?case using Cons.IH[OF Cons.prems]
    by (auto split: prod.splits)
qed

lemma appends_good_grows:
  assumes "never_rejects e"
  shows "\<exists>w'. run_checked e (map (\<lambda>fr. IptAppend (fst fr) (snd fr)) frs) w = (True, w') \<and>
              grows w w' (rules_of V4 frs) (rules_of V6 frs)"
proof -
  obtain ok w' where r: "run_checked e (map (\<lambda>fr. IptAppend (fst fr) (snd fr)) frs) w = (ok, w')"
    by (cases "run_checked e (map (\<lambda>fr. IptAppend (fst fr) (snd fr)) frs) w")
  with appends_good[OF assms, of frs w] have ok: "ok" by simp
  from run_checked_appends_grow[OF r] ok r show ?thesis
    by (auto simp: part_def)
qed

lemma country_family_rules_good:
  assumes "never_rejects e"
  shows "\<exists>w'. country_family_rules e v fam country w = (True, w') \<and>
           grows w w' (if fam = V4 then concat (map (country_pair v fam) (present w fam [country])) else [])
                      (if fam = V6 then concat (map (country_pair v fam) (present w fam [country])) else [])"
proof -
  define n where "n = (case fam of V4 \<Rightarrow> set_name_v4 country | V6 \<Rightarrow> set_name_v6 country)"
  obtain ok w' where r: "country_family_rules e v fam country w = (ok, w')"
    by (cases "country_family_rules e v fam country w")
  have probe: "fst (run_cmd e (IpsetListSet n) w) = set_exists w n"
    by (simp add: run_cmd_good[OF assms])
  let ?frs = "map (\<lambda>r. (fam, r)) (country_pair v fam country)"
  have m: "map (IptAppend fam) (country_pair v fam country) = map (\<lambda>fr. IptAppend (fst fr) (snd fr)) ?frs"
    by simp
  have ok: "ok"
    using r probe appends_good[OF assms, of ?frs "snd (snd (run_cmd e (IpsetListSet n) w))"]
    unfolding country_family_rules_def Let_def n_def[symmetric] m
    by (auto split: if_splits)
  from country_family_rules_grow[OF r] obtain p x where
    p: "p = [] \<or> p = [country]"
    and g: "grows w w' (if fam = V4 then x else []) (if fam = V6 then x else [])"
    and q: "part x (concat (map (country_pair v fam) p)) ok"
    by blast
  from q ok have x: "x = concat (map (country_pair v fam) p)" by (simp add: part_def)
  have len: "length x = (if set_exists w n then 2 else 0)"
  proof -
    define w1 where "w1 = snd (snd (run_cmd e (IpsetListSet n) w))"
    have "same_kernel w w1" unfolding w1_def by (rule run_cmd_readonly) simp
    then have k: "chain_v4 w1 = chain_v4 w" "chain_v6 w1 = chain_v6 w" by (simp_all add: same_kernel_def)
    show ?thesis
    proof (cases "set_exists w n")
      case False
      with r probe have "w' = w1"
        by (simp add: country_family_rules_def Let_def n_def[symmetric] w1_def)
      with g k False show ?thesis by (cases fam) (simp_all add: grows_def)
    next
      case True
      with r probe have rr: "run_checked e (map (\<lambda>fr. IptAppend (fst fr) (snd fr)) ?frs) w1 = (ok, w')"
        by (simp add: country_family_rules_def Let_def n_def[symmetric] w1_def comp_def)
      from appends_good_grows[OF assms, of ?frs w1] rr
      have gg: "grows w1 w' (rules_of V4 ?frs) (rules_of V6 ?frs)" by simp
      have "rules_of fam ?frs = country_pair v fam country"
        by (simp add: rules_of_def filter_map comp_def)
      then have "length (rules_of fam ?frs) = 2" by (simp add: country_pair_def Let_def)
      with gg g k True show ?thesis by (cases fam) (auto simp: grows_def)
    qed
  qed
  have "p = present w fam [country]"
  proof (cases "set_exists w n")
    case True
    with len x p have "p = [country]" by auto
    with True show ?thesis by (simp add: present_def n_def)
  next
    case False
    with len x p have "p = []" by (auto simp: country_pair_def Let_def)
    with False show ?thesis by (simp add: present_def n_def)
  qed
  with g x r ok show ?thesis by auto
qed

lemma present_frame: "ipsets w' = ipsets w \<Longrightarrow> present w' fam cs = present w fam cs"
  by (simp add: present_def set_exists_def)

lemma present_Cons: "present w fam (c # cs) = present w fam [c] @ present w fam cs"
  by (simp add: present_def)

lemma country_rules_good:
  assumes "never_rejects e"
  shows "\<exists>w'. country_rules e v countries w = (True, w') \<and>
           grows w w' (concat (map (country_pair v V4) (present w V4 countries)))
                      (concat (map (country_pair v V6) (present w V6 countries)))"
proof (induction countries arbitrary: w)
  case Nil
  show ?case by (simp add: grows_refl present_def)
next
  case (Cons c rest)
  from country_family_rules_good[OF assms, of v V4 c w] obtain w1 where
    r4: "country_family_rules e v V4 c w = (True, w1)"
    and g4: "grows w w1 (concat (map (country_pair v V4) (present w V4 [c]))) []"
    by auto
  from country_family_rules_good[OF assms, of v V6 c w1] obtain w2 where
    r6: "country_family_rules e v V6 c w1 = (True, w2)"
    and g6: "grows w1 w2 [] (concat (map (country_pair v V6) (present w1 V6 [c])))"
    by auto
  from Cons.IH[of w2] obtain w' where
    rr: "country_rules e v rest w2 = (True, w')"
    and gr: "grows w2 w' (concat (map (country_pair v V4) (present w2 V4 rest)))
                         (concat (map (country_pair v V6) (present w2 V6 rest)))"
    by auto
  have i1: "ipsets w1 = ipsets w" using g4 by (simp add: grows_def)
  have i2: "ipsets w2 = ipsets w" using g6 i1 by (simp add: grows_def)
  have res: "country_rules e v (c # rest) w = (True, w')" using r4 r6 rr by simp
  have "grows w w' (concat (map (country_pair v V4) (present w V4 [c])) @ [] @
                    concat (map (country_pair v V4) (present w2 V4 rest)))
                   ([] @ concat (map (country_pair v V6) (present w1 V6 [c])) @
                    concat (map (country_pair v V6) (present w2 V6 rest)))"
    using grows_trans[OF g4 grows_trans[OF g6 gr]] .
  then have "grows w w' (concat (map (country_pair v V4) (present w V4 (c # rest))))
                        (concat (map (country_pair v V6) (present w V6 (c # rest))))"
    unfolding present_frame[OF i1] present_frame[OF i2]
    by (simp add: present_Cons[of w _ c rest])
  with res show ?case by blast
qed

lemma setup_firewall_rules_good:
  assumes nr: "never_rejects e"
  shows "\<exists>w'. setup_firewall_rules e allowed w = (True, w') \<and>
           grows w w'
             (generated_chain V4 (present w V4 allowed)
                (present w V4 (filter (\<lambda>c. c \<notin> set allowed) (ALL_COUNTRIES w))))
             (generated_chain V6 (present w V6 allowed)
                (present w V6 (filter (\<lambda>c. c \<notin> set allowed) (ALL_COUNTRIES w))))"
proof -
  let ?f1 = "[(V4, stateful_rule), (V6, stateful_rule)]"
  let ?f2 = "[(V4, localhost_rule), (V6, localhost_rule)]"
  let ?f3 = "map (\<lambda>n. (V4, private_rule n)) PRIVATE_NETWORKS_V4 @ map (\<lambda>n. (V6, private_rule n)) PRIVATE_NETWORKS_V6"
  let ?f6 = "[(V4, default_log_rule), (V4, default_drop_rule), (V6, default_log_rule), (V6, default_drop_rule)]"
  let ?A = "\<lambda>frs. map (\<lambda>fr. IptAppend (fst fr) (snd fr)) frs"
  let ?blocked = "filter (\<lambda>c. c \<notin> set allowed) (ALL_COUNTRIES w)"
  let ?T = "[default_log_rule, default_drop_rule]"
  let ?l1 = "[IptAppend V4 stateful_rule, IptAppend V6 stateful_rule]"
  let ?l2 = "[IptAppend V4 localhost_rule, IptAppend V6 localhost_rule]"
  let ?l3 = "map (\<lambda>network. IptAppend V4 (private_rule network)) PRIVATE_NETWORKS_V4
            @ map (\<lambda>network. IptAppend V6 (private_rule network)) PRIVATE_NETWORKS_V6"
  let ?l6 = "[IptAppend V4 default_log_rule, IptAppend V4 default_drop_rule,
             IptAppend V6 default_log_rule, IptAppend V6 default_drop_rule]"
  have c1: "?l1 = ?A ?f1" by simp
  have c2: "?l2 = ?A ?f2" by simp
  have c3: "?l3 = ?A ?f3" by (simp add: comp_def)
  have c6: "?l6 = ?A ?f6" by simp
  have R1: "rules_of V4 ?f1 = [stateful_rule]" "rules_of V6 ?f1 = [stateful_rule]"
    by (simp_all add: rules_of_def)
  have R2: "rules_of V4 ?f2 = [localhost_rule]" "rules_of V6 ?f2 = [localhost_rule]"
    by (simp_all add: rules_of_def)
  have R3: "rules_of V4 ?f3 = map private_rule (private_networks V4)"
           "rules_of V6 ?f3 = map private_rule (private_networks V6)"
    by (simp_all add: rules_of_def private_networks_def filter_map comp_def)
  have R6: "rules_of V4 ?f6 = ?T" "rules_of V6 ?f6 = ?T"
    by (simp_all add: rules_of_def)
  from appends_good_grows[OF nr, of ?f1 w] obtain w1 where
    l1: "run_checked e ?l1 w = (True, w1)" and g1: "grows w w1 [stateful_rule] [stateful_rule]"
    unfolding R1 c1[symmetric] by blast
  from appends_good_grows[OF nr, of ?f2 w1] obtain w2 where
    l2: "run_checked e ?l2 w1 = (True, w2)" and g2: "grows w1 w2 [localhost_rule] [localhost_rule]"
    unfolding R2 c2[symmetric] by blast
  from appends_good_grows[OF nr, of ?f3 w2] obtain w3 where
    l3: "run_checked e ?l3 w2 = (True, w3)"
    and g3: "grows w2 w3 (map private_rule (private_networks V4)) (map private_rule (private_networks V6))"
    unfolding R3 c3[symmetric] by blast
  have f3: "ipsets w3 = ipsets w" "ALL_COUNTRIES w3 = ALL_COUNTRIES w"
    using g1 g2 g3 by (simp_all add: grows_def)
  from country_rules_good[OF nr, of ACCEPT allowed w3] obtain w4 where
    r4: "country_rules e ACCEPT allowed w3 = (True, w4)"
    and g4: "grows w3 w4 (concat (map (country_pair ACCEPT V4) (present w V4 allowed)))
                         (concat (map (country_pair ACCEPT V6) (present w V6 allowed)))"
    unfolding present_frame[OF f3(1)] by blast
  have f4: "ipsets w4 = ipsets w" using g4 f3 by (simp add: grows_def)
  from country_rules_good[OF nr, of DROP "filter (\<lambda>c. c \<notin> set allowed) (ALL_COUNTRIES w3)" w4] obtain w5 where
    r5: "country_rules e DROP (filter (\<lambda>c. c \<notin> set allowed) (ALL_COUNTRIES w3)) w4 = (True, w5)"
    and g5: "grows w4 w5 (concat (map (country_pair DROP V4) (present w V4 ?blocked)))
                         (concat (map (country_pair DROP V6) (present w V6 ?blocked)))"
    unfolding present_frame[OF f4] f3(2) by blast
  from appends_good_grows[OF nr, of ?f6 w5] obtain w6 where
    l6: "run_checked e ?l6 w5 = (True, w6)" and g6: "grows w5 w6 ?T ?T"
    unfolding R6 c6[symmetric] by blast
  have res: "setup_firewall_rules e allowed w = (True, w6)"
    unfolding setup_firewall_rules_def Let_def using l1 l2 l3 r4 r5 l6
    by (simp del: run_checked.simps)
  have "grows w w6
      ([stateful_rule] @ [localhost_rule] @ map private_rule (private_networks V4) @
       concat (map (country_pair ACCEPT V4) (present w V4 allowed)) @
       concat (map (country_pair DROP V4) (present w V4 ?blocked)) @ ?T)
      ([stateful_rule] @ [localhost_rule] @ map private_rule (private_networks V6) @
       concat (map (country_pair ACCEPT V6) (present w V6 allowed)) @
       concat (map (country_pair DROP V6) (present w V6 ?blocked)) @ ?T)"
    using grows_trans[OF g1 grows_trans[OF g2 grows_trans[OF g3 grows_trans[OF g4 grows_trans[OF g5 g6]]]]] .
  then have "grows w w6
      (generated_chain V4 (present w V4 allowed) (present w V4 ?blocked))
      (generated_chain V6 (present w V6 allowed) (present w V6 ?blocked))"
    by (simp add: generated_chain_def)
  with res show ?thesis by blast
qed

lemma example_env_never_rejects: "never_rejects example_env"
  by (simp add: never_rejects_def example_env_def)

theorem C2_witness:
  "setup_firewall_rules example_env ALLOWED_COUNTRIES applied_world =
     (True, snd (setup_firewall_rules example_env ALLOWED_COUNTRIES applied_world)) \<and>
   chain_v4 (snd (setup_firewall_rules example_env ALLOWED_COUNTRIES applied_world)) =
     chain_v4 applied_world @ generated_chain V4 [''KR''] [''US''] \<and>
   chain_v6 (snd (setup_firewall_rules example_env ALLOWED_COUNTRIES applied_world)) =
     [[''-m'', ''conntrack'', ''--ctstate'', ''ESTABLISHED,RELATED'', ''-j'', ''ACCEPT'',
       ''-m'', ''comment'', ''--comment'', ''geoip-firewall-stateful''],
      [''-i'', ''lo'', ''-j'', ''ACCEPT'', ''-m'', ''comment'', ''--comment'', ''geoip-firewall-localhost''],
      [''-s'', ''fc00::/7'', ''-j'', ''ACCEPT'', ''-m'', ''comment'', ''--comment'', ''geoip-firewall-private''],
      [''-s'', ''fe80::/10'', ''-j'', ''ACCEPT'', ''-m'', ''comment'', ''--comment'', ''geoip-firewall-private''],
      [''-m'', ''set'', ''--match-set'', ''country-KR-v6'', ''src'',
       ''-m'', ''conntrack'', ''--ctstate'', ''NEW'',
       ''-m'', ''comment'', ''--comment'', ''geoip-firewall-log'',
       ''-j'', ''LOG'', ''--log-prefix'', ''GEOIP-ACCEPT-KR: '', ''--log-level'', ''6''],
      [''-m'', ''set'', ''--match-set'', ''country-KR-v6'', ''src'',
       ''-m'', ''comment'', ''--comment'', ''geoip-firewall'', ''-j'', ''ACCEPT''],
      [''-m'', ''conntrack'', ''--ctstate'', ''NEW'',
       ''-m'', ''comment'', ''--comment'', ''geoip-firewall-log'',
       ''-j'', ''LOG'', ''--log-prefix'', ''GEOIP-DROP-UNKNOWN: '', ''--log-level'', ''6''],
      [''-m'', ''comment'', ''--comment'', ''geoip-firewall-drop'', ''-j'', ''DROP'']] \<and>
   map classify (drop 1 (chain_v4 (snd (setup_firewall_rules example_env ALLOWED_COUNTRIES applied_world)))) =
     [StatefulAccept, LoopbackAccept,
      SourceAccept ''10.0.0.0/8'', SourceAccept ''172.16.0.0/12'',
      SourceAccept ''192.168.0.0/16'', SourceAccept ''169.254.0.0/16'',
      SetLog ''country-KR'', SetAccept ''country-KR'',
      SetLog ''country-US'', SetDrop ''country-US'',
      DefaultLog, UnconditionalDrop] \<and>
   (\<exists>a4 b4 a6 b6.
      subseq a4 ALLOWED_COUNTRIES \<and> subseq a6 ALLOWED_COUNTRIES \<and>
      chain_v4 (snd (setup_firewall_rules example_env ALLOWED_COUNTRIES applied_world)) =
        chain_v4 applied_world @ generated_chain V4 a4 b4 \<and>
      chain_v6 (snd (setup_firewall_rules example_env ALLOWED_COUNTRIES applied_world)) =
        chain_v6 applied_world @ generated_chain V6 a6 b6 \<and>
      map classify (drop 1 (chain_v4 (snd (setup_firewall_rules example_env ALLOWED_COUNTRIES applied_world)))) =
        chain_order V4 a4 b4 \<and>
      map classify (chain_v6 (snd (setup_firewall_rules example_env ALLOWED_COUNTRIES applied_world))) =
        chain_order V6 a6 b6)"
proof -
  let ?r = "setup_firewall_rules example_env ALLOWED_COUNTRIES applied_world"
  from setup_firewall_rules_good[OF example_env_never_rejects, of ALLOWED_COUNTRIES applied_world]
  obtain w' where r: "?r = (True, w')"
    and g: "grows applied_world w'
             (generated_chain V4 (present applied_world V4 ALLOWED_COUNTRIES)
                (present applied_world V4 (filter (\<lambda>c. c \<notin> set ALLOWED_COUNTRIES) (ALL_COUNTRIES applied_world))))
             (generated_chain V6 (present applied_world V6 ALLOWED_COUNTRIES)
                (present applied_world V6 (filter (\<lambda>c. c \<notin> set ALLOWED_COUNTRIES) (ALL_COUNTRIES applied_world))))"
    by blast
  have p: "present applied_world V4 ALLOWED_COUNTRIES = [''KR'']"
          "present applied_world V6 ALLOWED_COUNTRIES = [''KR'']"
          "present applied_world V4 (filter (\<lambda>c. c \<notin> set ALLOWED_COUNTRIES) (ALL_COUNTRIES applied_world)) = [''US'']"
          "present applied_world V6 (filter (\<lambda>c. c \<notin> set ALLOWED_COUNTRIES) (ALL_COUNTRIES applied_world)) = []"
    by (simp_all add: present_def applied_world_def ALLOWED_COUNTRIES_def set_exists_def
          set_name_v4_def set_name_v6_def)
  have old: "chain_v4 applied_world = [[''-p'', ''tcp'', ''--dport'', ''22'', ''-j'', ''ACCEPT'']]"
            "chain_v6 applied_world = []"
    by (simp_all add: applied_world_def cleaned_world_def reboot_world_def steady_world_def)
  have h: "?r = (True, snd ?r)" using r by simp
  have c4: "chain_v4 (snd ?r) = chain_v4 applied_world @ generated_chain V4 [''KR''] [''US'']"
    using g r unfolding p by (simp add: grows_def)
  have c6: "chain_v6 (snd ?r) = chain_v6 applied_world @ generated_chain V6 [''KR''] []"
    using g r unfolding p by (simp add: grows_def)
  have l6: "chain_v6 (snd ?r) =
     [[''-m'', ''conntrack'', ''--ctstate'', ''ESTABLISHED,RELATED'', ''-j'', ''ACCEPT'',
       ''-m'', ''comment'', ''--comment'', ''geoip-firewall-stateful''],
      [''-i'', ''lo'', ''-j'', ''ACCEPT'', ''-m'', ''comment'', ''--comment'', ''geoip-firewall-localhost''],
      [''-s'', ''fc00::/7'', ''-j'', ''ACCEPT'', ''-m'', ''comment'', ''--comment'', ''geoip-firewall-private''],
      [''-s'', ''fe80::/10'', ''-j'', ''ACCEPT'', ''-m'', ''comment'', ''--comment'', ''geoip-firewall-private''],
      [''-m'', ''set'', ''--match-set'', ''country-KR-v6'', ''src'',
       ''-m'', ''conntrack'', ''--ctstate'', ''NEW'',
       ''-m'', ''comment'', ''--comment'', ''geoip-firewall-log'',
       ''-j'', ''LOG'', ''--log-prefix'', ''GEOIP-ACCEPT-KR: '', ''--log-level'', ''6''],
      [''-m'', ''set'', ''--match-set'', ''country-KR-v6'', ''src'',
       ''-m'', ''comment'', ''--comment'', ''geoip-firewall'', ''-j'', ''ACCEPT''],
      [''-m'', ''conntrack'', ''--ctstate'', ''NEW'',
       ''-m'', ''comment'', ''--comment'', ''geoip-firewall-log'',
       ''-j'', ''LOG'', ''--log-prefix'', ''GEOIP-DROP-UNKNOWN: '', ''--log-level'', ''6''],
      [''-m'', ''comment'', ''--comment'', ''geoip-firewall-drop'', ''-j'', ''DROP'']]"
    unfolding c6 old
    by (simp add: generated_chain_def stateful_rule_def localhost_rule_def private_rule_def
          private_networks_def PRIVATE_NETWORKS_V6_def country_pair_def country_log_rule_def
          country_verdict_rule_def set_name_v6_def verdict_name_def verdict_comment_def
          default_log_rule_def default_drop_rule_def Let_def)
  have d4: "drop 1 (chain_v4 (snd ?r)) = generated_chain V4 [''KR''] [''US'']"
    unfolding c4 old by simp
  have k4: "map classify (drop 1 (chain_v4 (snd ?r))) =
     [StatefulAccept, LoopbackAccept,
      SourceAccept ''10.0.0.0/8'', SourceAccept ''172.16.0.0/12'',
      SourceAccept ''192.168.0.0/16'', SourceAccept ''169.254.0.0/16'',
      SetLog ''country-KR'', SetAccept ''country-KR'',
      SetLog ''country-US'', SetDrop ''country-US'',
      DefaultLog, UnconditionalDrop]"
    unfolding d4 classify_generated_chain by (simp add: chain_order_def country_set_def)
  from C2_generated_chain_order[of example_env ALLOWED_COUNTRIES applied_world True "snd ?r"] h
  obtain a4 b4 a6 b6 x4 x6 where
    s: "subseq a4 ALLOWED_COUNTRIES" "subseq a6 ALLOWED_COUNTRIES"
    and x: "chain_v4 (snd ?r) = chain_v4 applied_world @ x4" "chain_v6 (snd ?r) = chain_v6 applied_world @ x6"
    and e: "x4 = generated_chain V4 a4 b4" "x6 = generated_chain V6 a6 b6"
           "map classify x4 = chain_order V4 a4 b4" "map classify x6 = chain_order V6 a6 b6"
    by blast
  from x have y: "drop 1 (chain_v4 (snd ?r)) = x4" "chain_v6 (snd ?r) = x6"
    unfolding old by simp_all
  have ex: "\<exists>a4 b4 a6 b6.
      subseq a4 ALLOWED_COUNTRIES \<and> subseq a6 ALLOWED_COUNTRIES \<and>
      chain_v4 (snd ?r) = chain_v4 applied_world @ generated_chain V4 a4 b4 \<and>
      chain_v6 (snd ?r) = chain_v6 applied_world @ generated_chain V6 a6 b6 \<and>
      map classify (drop 1 (chain_v4 (snd ?r))) = chain_order V4 a4 b4 \<and>
      map classify (chain_v6 (snd ?r)) = chain_order V6 a6 b6"
    using s x e unfolding y
    by (intro exI[of _ a4] exI[of _ b4] exI[of _ a6] exI[of _ b6] conjI) simp_all
  from h c4 l6 k4 ex show ?thesis by (intro conjI)
qed

section \<open>Rule positions printed and read back\<close>

lemma digit_char_is_digit: "d < 10 \<Longrightarrow> is_digit (digit_char d)"
proof -
  assume "d < 10"
  then have "d \<in> {0, 1, 2, 3, 4, 5, 6, 7, 8, 9}" by auto
  then show ?thesis by (auto simp: digit_char_def is_digit_def)
qed

lemma digit_val_digit_char: "d < 10 \<Longrightarrow> digit_val (digit_char d) = Some d"
proof -
  assume "d < 10"
  then have "d \<in> {0, 1, 2, 3, 4, 5, 6, 7, 8, 9}" by auto
  then show ?thesis by (auto simp: digit_char_def digit_val_def upt_rec)
qed

lemma is_digit_not_space: "is_digit c \<Longrightarrow> \<not> is_space c"
  by (auto simp: is_digit_def is_space_def)

lemma show_nat_digits: "show_nat n \<noteq> [] \<and> list_all is_digit (show_nat n)"
proof (induction n rule: show_nat.induct)
  case (1 n)
  show ?case
  proof (cases "n < 10")
    case True
    then show ?thesis by (subst (1 2) show_nat.simps) (simp add: digit_char_is_digit)
  next
    case False
    with 1 have "list_all is_digit (show_nat (n div 10))" by simp
    with False show ?thesis
      by (subst (1 2) show_nat.simps) (simp add: digit_char_is_digit)
  qed
qed

lemma isdigit_show_nat: "isdigit (show_nat n)"
  using show_nat_digits[of n] by (simp add: isdigit_def)

lemma parse_digits_snoc:
  "parse_digits acc (xs @ [c]) =
     (case parse_digits acc xs of
        None \<Rightarrow> None
      | Some a \<Rightarrow> (case digit_val c of None \<Rightarrow> None | Some d \<Rightarrow> Some (10 * a + d)))"
  by (induction xs arbitrary: acc) (auto split: option.splits)

lemma parse_digits_show_nat: "parse_digits 0 (show_nat n) = Some n"
proof (induction n rule: show_nat.induct)
  case (1 n)
  show ?case
  proof (cases "n < 10")
    case True
    then show ?thesis by (subst show_nat.simps) (simp add: digit_val_digit_char)
  next
    case False
    with 1 have "parse_digits 0 (show_nat (n div 10)) = Some (n div 10)" by simp
    with False show ?thesis
      by (subst show_nat.simps) (simp add: parse_digits_snoc digit_val_digit_char)
  qed
qed

lemma parse_nat_show_nat: "parse_nat (show_nat n) = Some n"
  using show_nat_digits[of n] by (simp add: parse_nat_def parse_digits_show_nat)

lemma first_token_digits:
  assumes "xs \<noteq> []" "list_all is_digit xs"
  shows "first_token (xs @ CHR '' '' # rest) = Some xs"
proof -
  from assms have ns: "\<forall>c \<in> set xs. \<not> is_space c"
    by (auto simp: list_all_iff is_digit_not_space)
  from assms(1) obtain x xs' where xs: "xs = x # xs'" by (cases xs) auto
  with ns have "\<not> is_space x" by simp
  then have d: "dropWhile is_space (xs @ CHR '' '' # rest) = xs @ CHR '' '' # rest"
    using xs by simp
  have sp: "is_space CHR '' ''" by (simp add: is_space_def)
  have "takeWhile (\<lambda>c. \<not> is_space c) (xs @ CHR '' '' # rest) = xs"
    using ns sp by (simp add: takeWhile_append2)
  with d xs show ?thesis by (simp add: first_token_def)
qed

text \<open>The line of the listing for the rule at position \<open>k\<close> (counted from one).\<close>

lemma first_token_rule_line: "first_token (rule_line k r) = Some (show_nat k)"
  using first_token_digits[OF show_nat_digits[THEN conjunct1] show_nat_digits[THEN conjunct2], of k]
  by (simp add: rule_line_def)

lemma sublist_skip_prefix:
  assumes "xs \<noteq> []" "hd xs \<notin> set ps"
  shows "sublist xs (ps @ ys) \<longleftrightarrow> sublist xs ys"
  using assms(2)
proof (induction ps)
  case Nil
  show ?case by simp
next
  case (Cons p ps)
  from assms(1) obtain x xs' where xs: "xs = x # xs'" by (cases xs) auto
  with Cons.prems have "x \<noteq> p" by auto
  then have "\<not> prefix xs (p # ps @ ys)" using xs by simp
  with Cons show ?case by (simp add: sublist_Cons_right)
qed

lemma str_in_rule_line:
  assumes "marker \<noteq> []" "\<not> is_digit (hd marker)" "hd marker \<noteq> CHR '' ''"
  shows "str_in marker (rule_line k r) \<longleftrightarrow> rule_marked marker r"
proof -
  have "hd marker \<notin> set (show_nat k @ ''    '')"
    using assms(2,3) show_nat_digits[of k] by (auto simp: list_all_iff)
  from sublist_skip_prefix[OF assms(1) this, of "join_sp r"] show ?thesis
    by (simp add: str_in_def rule_line_def rule_marked_def)
qed

section \<open>The cleanup on a kernel that rejects nothing\<close>

lemma first_marked_None: "first_marked marker k rs = None \<Longrightarrow> filter (\<lambda>r. \<not> rule_marked marker r) rs = rs"
  by (induction rs arbitrary: k) (auto split: if_splits)

lemma first_marked_Some:
  "first_marked marker k rs = Some j \<Longrightarrow>
     k \<le> j \<and> j < k + length rs \<and>
     filter (\<lambda>r. \<not> rule_marked marker r) (delete_at (j - k) rs) = filter (\<lambda>r. \<not> rule_marked marker r) rs"
proof (induction rs arbitrary: k)
  case Nil
  then show ?case by simp
next
  case (Cons r rs)
  show ?case
  proof (cases "rule_marked marker r")
    case True
    with Cons.prems show ?thesis by simp
  next
    case False
    with Cons.prems have "first_marked marker (Suc k) rs = Some j" by simp
    from Cons.IH[OF this] have
      a: "Suc k \<le> j" "j < Suc k + length rs"
      and f: "filter (\<lambda>r. \<not> rule_marked marker r) (delete_at (j - Suc k) rs) =
              filter (\<lambda>r. \<not> rule_marked marker r) rs"
      by (simp_all del: delete_at.simps)
    from a have jk: "j - k = Suc (j - Suc k)" by simp
    have "delete_at (Suc (j - Suc k)) (r # rs) = r # delete_at (j - Suc k) rs" by simp
    with a f False show ?thesis unfolding jk by (simp del: delete_at.simps)
  qed
qed

lemma scan_lines_numbered:
  assumes "marker_ok marker"
  shows "scan_lines marker (map (\<lambda>(i, r). rule_line (Suc i) r) (zip [k ..< k + length rs] rs) @ rest) =
           (case first_marked marker (Suc k) rs of
              None \<Rightarrow> scan_lines marker rest
            | Some j \<Rightarrow> Found (show_nat j))"
proof (induction rs arbitrary: k)
  case Nil
  show ?case by simp
next
  case (Cons r rs)
  have u: "[k ..< k + length (r # rs)] = k # [Suc k ..< Suc k + length rs]"
    using upt_conv_Cons[of k "k + length (r # rs)"] by simp
  have m: "str_in marker (rule_line (Suc k) r) \<longleftrightarrow> rule_marked marker r"
    using assms by (intro str_in_rule_line) (simp_all add: marker_ok_def)
  show ?case
    unfolding u using Cons.IH[of "Suc k"]
    by (simp add: m first_token_rule_line isdigit_show_nat)
qed

lemma scan_lines_listing:
  assumes "marker_ok marker"
  shows "scan_lines marker (listing rs) =
           (case first_marked marker 1 rs of None \<Rightarrow> NotFound | Some j \<Rightarrow> Found (show_nat j))"
proof -
  have h1: "first_token ''Chain INPUT (policy ACCEPT)'' = Some ''Chain''"
    by (simp add: first_token_def is_space_def)
  have h2: "first_token ''num  target     prot opt source               destination'' = Some ''num''"
    by (simp add: first_token_def is_space_def)
  have d: "\<not> isdigit ''Chain''" "\<not> isdigit ''num''"
    by (simp_all add: isdigit_def is_digit_def)
  have e: "\<not> str_in marker ''''"
    using assms by (simp add: marker_ok_def str_in_def)
  have t: "scan_lines marker [''''] = NotFound" using e by simp
  have "scan_lines marker (listing rs) =
        scan_lines marker (map (\<lambda>(i, r). rule_line (Suc i) r) (zip [0 ..< 0 + length rs] rs) @ [''''])"
    unfolding listing_def using h1 h2 d by simp
  also have "\<dots> = (case first_marked marker 1 rs of None \<Rightarrow> NotFound | Some j \<Rightarrow> Found (show_nat j))"
    unfolding scan_lines_numbered[OF assms] t by simp
  finally show ?thesis .
qed

lemma run_cmd_list_good:
  "never_rejects e \<Longrightarrow>
     run_cmd e (IptList fam) w = (True, listing (chain fam w), w\<lparr>trace := trace w @ [Kernel (IptList fam) True]\<rparr>)"
  by (simp add: run_cmd_good)

lemma chain_trace_update: "chain fam (w\<lparr>trace := t\<rparr>) = chain fam w"
  by (simp add: chain_def split: family.splits)

lemma chain_set_chain: "chain fam' (set_chain fam rs w) = (if fam' = fam then rs else chain fam' w)"
  by (cases fam; cases fam') (simp_all add: chain_def set_chain_def)

lemma delete_marked_rules_good:
  assumes nr: "never_rejects e" and mk: "marker_ok marker"
  shows "\<exists>w'. delete_marked_rules e fam marker w = Some (None, w') \<and>
           chain fam w' = filter (\<lambda>r. \<not> rule_marked marker r) (chain fam w) \<and>
           (\<forall>fam'. fam' \<noteq> fam \<longrightarrow> chain fam' w' = chain fam' w)"
proof (induction "length (chain fam w)" arbitrary: w rule: less_induct)
  case less
  let ?w1 = "w\<lparr>trace := trace w @ [Kernel (IptList fam) True]\<rparr>"
  show ?case
  proof (cases "first_marked marker 1 (chain fam w)")
    case None
    then have "delete_marked_rules e fam marker w = Some (None, ?w1)"
      by (subst delete_marked_rules.simps)
         (simp add: run_cmd_list_good[OF nr] scan_lines_listing[OF mk] Let_def)
    with first_marked_None[OF None] show ?thesis
      by (simp add: chain_trace_update)
  next
    case (Some j)
    from first_marked_Some[OF Some] have
      j: "1 \<le> j" "j \<le> length (chain fam w)"
      and f: "filter (\<lambda>r. \<not> rule_marked marker r) (delete_at (j - 1) (chain fam w)) =
              filter (\<lambda>r. \<not> rule_marked marker r) (chain fam w)"
      by (simp_all del: delete_at.simps)
    define w2 where "w2 = (set_chain fam (delete_at (j - 1) (chain fam w)) ?w1)
                            \<lparr>trace := trace ?w1 @ [Kernel (IptDelete fam (show_nat j)) True]\<rparr>"
    have del: "run_cmd e (IptDelete fam (show_nat j)) ?w1 = (True, [''''], w2)"
      using j by (simp add: run_cmd_good[OF nr] parse_nat_show_nat chain_trace_update w2_def)
    have fm: "first_marked marker (Suc 0) (chain fam w) = Some j" using Some by simp
    have step: "delete_marked_rules e fam marker w = delete_marked_rules e fam marker w2"
      by (subst delete_marked_rules.simps)
         (simp add: run_cmd_list_good[OF nr] scan_lines_listing[OF mk] fm del Let_def)
    have c2: "chain fam w2 = delete_at (j - 1) (chain fam w)"
      by (simp add: w2_def chain_trace_update chain_set_chain)
    have o2: "fam' \<noteq> fam \<Longrightarrow> chain fam' w2 = chain fam' w" for fam'
      by (simp add: w2_def chain_trace_update chain_set_chain)
    from j have "length (chain fam w2) < length (chain fam w)"
      unfolding c2 by simp
    from less[OF this] obtain w' where
      r: "delete_marked_rules e fam marker w2 = Some (None, w')"
      and c: "chain fam w' = filter (\<lambda>r. \<not> rule_marked marker r) (chain fam w2)"
      and o: "\<forall>fam'. fam' \<noteq> fam \<longrightarrow> chain fam' w' = chain fam' w2"
      by blast
    from r c o step c2 f o2 show ?thesis by auto
  qed
qed

lemma marker_ok_drop: "marker_ok ''geoip-firewall-drop''"
  by (simp add: marker_ok_def is_digit_def)

lemma marker_ok_geoip: "marker_ok ''geoip-firewall''"
  by (simp add: marker_ok_def is_digit_def)

lemma drop_marker_is_marked: "rule_marked ''geoip-firewall-drop'' r \<Longrightarrow> rule_marked ''geoip-firewall'' r"
proof -
  assume a: "rule_marked ''geoip-firewall-drop'' r"
  have "sublist ''geoip-firewall'' (''geoip-firewall'' @ ''-drop'')" by (rule sublist_append_rightI)
  then have s: "sublist ''geoip-firewall'' ''geoip-firewall-drop''" by simp
  from a have "sublist ''geoip-firewall-drop'' (join_sp r)"
    by (simp add: rule_marked_def str_in_def)
  with s have "sublist ''geoip-firewall'' (join_sp r)" by (rule sublist_order.order_trans)
  then show ?thesis by (simp add: rule_marked_def str_in_def)
qed

lemma filter_marked_twice:
  "filter (\<lambda>r. \<not> rule_marked ''geoip-firewall'' r) (filter (\<lambda>r. \<not> rule_marked ''geoip-firewall-drop'' r) rs) =
   filter (\<lambda>r. \<not> rule_marked ''geoip-firewall'' r) rs"
  by (induction rs) (auto dest: drop_marker_is_marked)

lemma cleanup_rules_good:
  assumes nr: "never_rejects e"
  shows "\<exists>w'. cleanup_rules e fam w = Some (None, w') \<and>
           chain fam w' = filter (\<lambda>r. \<not> rule_marked ''geoip-firewall'' r) (chain fam w) \<and>
           (\<forall>fam'. fam' \<noteq> fam \<longrightarrow> chain fam' w' = chain fam' w)"
proof -
  from delete_marked_rules_good[OF nr marker_ok_drop, of fam w] obtain w1 where
    r1: "delete_marked_rules e fam ''geoip-firewall-drop'' w = Some (None, w1)"
    and c1: "chain fam w1 = filter (\<lambda>r. \<not> rule_marked ''geoip-firewall-drop'' r) (chain fam w)"
    and o1: "\<forall>fam'. fam' \<noteq> fam \<longrightarrow> chain fam' w1 = chain fam' w"
    by blast
  from delete_marked_rules_good[OF nr marker_ok_geoip, of fam w1] obtain w2 where
    r2: "delete_marked_rules e fam ''geoip-firewall'' w1 = Some (None, w2)"
    and c2: "chain fam w2 = filter (\<lambda>r. \<not> rule_marked ''geoip-firewall'' r) (chain fam w1)"
    and o2: "\<forall>fam'. fam' \<noteq> fam \<longrightarrow> chain fam' w2 = chain fam' w1"
    by blast
  have "cleanup_rules e fam w = Some (None, w2)"
    using r1 r2 by (simp add: cleanup_rules_def)
  moreover have "chain fam w2 = filter (\<lambda>r. \<not> rule_marked ''geoip-firewall'' r) (chain fam w)"
    unfolding c2 c1 by (rule filter_marked_twice)
  ultimately show ?thesis using o1 o2 by auto
qed

subsection \<open>Destroying the sets\<close>

lemma destroy_step:
  "\<exists>gone. set gone \<subseteq> {n} \<and>
     ipsets (snd (snd (run_cmd e (IpsetDestroy n) w))) = filter (\<lambda>(k, v). k \<notin> set gone) (ipsets w) \<and>
     (never_rejects e \<longrightarrow> ipsets (snd (snd (run_cmd e (IpsetDestroy n) w))) = filter (\<lambda>(k, v). k \<noteq> n) (ipsets w))"
proof (cases "fst (run_cmd e (IpsetDestroy n) w)")
  case True
  then have "ipsets (snd (snd (run_cmd e (IpsetDestroy n) w))) = filter (\<lambda>(k, v). k \<noteq> n) (ipsets w)"
    by (auto simp: run_cmd_def split: if_splits)
  then have "set [n] \<subseteq> {n} \<and>
     ipsets (snd (snd (run_cmd e (IpsetDestroy n) w))) = filter (\<lambda>(k, v). k \<notin> set [n]) (ipsets w) \<and>
     (never_rejects e \<longrightarrow> ipsets (snd (snd (run_cmd e (IpsetDestroy n) w))) = filter (\<lambda>(k, v). k \<noteq> n) (ipsets w))"
    by simp
  then show ?thesis by (rule exI[of _ "[n]"])
next
  case False
  then have same: "ipsets (snd (snd (run_cmd e (IpsetDestroy n) w))) = ipsets w"
    by (auto simp: run_cmd_def split: if_splits)
  have "never_rejects e \<Longrightarrow> filter (\<lambda>(k, v). k \<noteq> n) (ipsets w) = ipsets w"
  proof -
    assume nr: "never_rejects e"
    with False have "\<not> set_exists w n" by (auto simp: run_cmd_good split: if_splits)
    then have "n \<notin> fst ` set (ipsets w)" by (simp add: set_exists_def)
    then have "\<forall>x \<in> set (ipsets w). fst x \<noteq> n" by blast
    then have "\<forall>x \<in> set (ipsets w). (case x of (k, v) \<Rightarrow> k \<noteq> n)"
      by (simp add: case_prod_beta)
    then show ?thesis by (simp add: filter_id_conv)
  qed
  with same have "set [] \<subseteq> {n} \<and>
     ipsets (snd (snd (run_cmd e (IpsetDestroy n) w))) = filter (\<lambda>(k, v). k \<notin> set []) (ipsets w) \<and>
     (never_rejects e \<longrightarrow> ipsets (snd (snd (run_cmd e (IpsetDestroy n) w))) = filter (\<lambda>(k, v). k \<noteq> n) (ipsets w))"
    by simp
  then show ?thesis by (rule exI[of _ "[]"])
qed

lemma filter_gone_twice:
  "filter (\<lambda>(k, v). k \<notin> B) (filter (\<lambda>(k, v). k \<notin> A) xs) = filter (\<lambda>(k, v). k \<notin> A \<union> B) xs"
  by (induction xs) auto

lemma filter_gone_one:
  "filter (\<lambda>(k, v). k \<notin> B) (filter (\<lambda>(k, v). k \<noteq> n) xs) = filter (\<lambda>(k, v). k \<notin> insert n B) xs"
  by (induction xs) auto

lemma destroy_all:
  "\<exists>gone. set gone \<subseteq> set ns \<and>
     ipsets (run_unchecked e (map IpsetDestroy ns) w) = filter (\<lambda>(k, v). k \<notin> set gone) (ipsets w) \<and>
     (never_rejects e \<longrightarrow>
        ipsets (run_unchecked e (map IpsetDestroy ns) w) = filter (\<lambda>(k, v). k \<notin> set ns) (ipsets w))"
proof (induction ns arbitrary: w)
  case Nil
  show ?case by (rule exI[of _ "[]"]) simp
next
  case (Cons n ns)
  define w1 where "w1 = snd (snd (run_cmd e (IpsetDestroy n) w))"
  obtain g1 where
    g1: "set g1 \<subseteq> {n}" "ipsets w1 = filter (\<lambda>(k, v). k \<notin> set g1) (ipsets w)"
    "never_rejects e \<longrightarrow> ipsets w1 = filter (\<lambda>(k, v). k \<noteq> n) (ipsets w)"
    using destroy_step[of n e w, folded w1_def] by (elim exE conjE)
  obtain g2 where
    g2: "set g2 \<subseteq> set ns"
    "ipsets (run_unchecked e (map IpsetDestroy ns) w1) = filter (\<lambda>(k, v). k \<notin> set g2) (ipsets w1)"
    "never_rejects e \<longrightarrow>
        ipsets (run_unchecked e (map IpsetDestroy ns) w1) = filter (\<lambda>(k, v). k \<notin> set ns) (ipsets w1)"
    using Cons.IH[of w1] by (elim exE conjE)
  have r: "run_unchecked e (map IpsetDestroy (n # ns)) w = run_unchecked e (map IpsetDestroy ns) w1"
    by (simp add: w1_def)
  have a: "set (g1 @ g2) \<subseteq> set (n # ns)" using g1(1) g2(1) by auto
  have b: "ipsets (run_unchecked e (map IpsetDestroy (n # ns)) w) =
           filter (\<lambda>(k, v). k \<notin> set (g1 @ g2)) (ipsets w)"
    unfolding r g2(2) g1(2) by (simp only: filter_gone_twice set_append)
  have c: "never_rejects e \<longrightarrow>
        ipsets (run_unchecked e (map IpsetDestroy (n # ns)) w) =
        filter (\<lambda>(k, v). k \<notin> set (n # ns)) (ipsets w)"
  proof
    assume nr: "never_rejects e"
    with g1(3) g2(3) have
      e1: "ipsets w1 = filter (\<lambda>(k, v). k \<noteq> n) (ipsets w)" and
      e2: "ipsets (run_unchecked e (map IpsetDestroy ns) w1) = filter (\<lambda>(k, v). k \<notin> set ns) (ipsets w1)"
      by simp_all
    show "ipsets (run_unchecked e (map IpsetDestroy (n # ns)) w) =
        filter (\<lambda>(k, v). k \<notin> set (n # ns)) (ipsets w)"
      unfolding r e2 e1 by (simp only: filter_gone_one list.set)
  qed
  show ?case by (rule exI[of _ "g1 @ g2"]) (intro conjI a b c)
qed

lemma destroy_geoip_sets_ipsets:
  "\<exists>gone. (\<forall>n \<in> set gone. geoip_set_name n) \<and>
     ipsets (destroy_geoip_sets e w) = filter (\<lambda>(k, v). k \<notin> set gone) (ipsets w) \<and>
     (never_rejects e \<longrightarrow>
        ipsets (destroy_geoip_sets e w) = filter (\<lambda>(k, v). \<not> geoip_set_name k) (ipsets w))"
proof -
  define out where "out = fst (snd (run_cmd e IpsetListNames w))"
  define w1 where "w1 = snd (snd (run_cmd e IpsetListNames w))"
  define ns where "ns = filter geoip_set_name out"
  have d: "destroy_geoip_sets e w = run_unchecked e (map IpsetDestroy ns) w1"
    by (simp add: destroy_geoip_sets_def Let_def out_def w1_def ns_def geoip_set_name_def[abs_def])
  have "same_kernel w w1" unfolding w1_def by (rule run_cmd_readonly) simp
  then have i1: "ipsets w1 = ipsets w" by (simp add: same_kernel_def)
  obtain gone where
    g: "set gone \<subseteq> set ns"
    "ipsets (run_unchecked e (map IpsetDestroy ns) w1) = filter (\<lambda>(k, v). k \<notin> set gone) (ipsets w1)"
    "never_rejects e \<longrightarrow>
        ipsets (run_unchecked e (map IpsetDestroy ns) w1) = filter (\<lambda>(k, v). k \<notin> set ns) (ipsets w1)"
    using destroy_all[of ns e w1] by (elim exE conjE)
  have a: "\<forall>n \<in> set gone. geoip_set_name n" using g(1) by (auto simp: ns_def)
  have c: "never_rejects e \<longrightarrow>
        ipsets (destroy_geoip_sets e w) = filter (\<lambda>(k, v). \<not> geoip_set_name k) (ipsets w)"
  proof
    assume nr: "never_rejects e"
    then have "out = map fst (ipsets w) @ ['''']"
      by (simp add: out_def run_cmd_good)
    then have "set ns = {n \<in> fst ` set (ipsets w). geoip_set_name n}"
      by (auto simp: ns_def geoip_set_name_def startswith_def)
    then have "filter (\<lambda>(k, v). k \<notin> set ns) (ipsets w) = filter (\<lambda>(k, v). \<not> geoip_set_name k) (ipsets w)"
      by (intro filter_cong refl) force
    with g(3) nr show "ipsets (destroy_geoip_sets e w) = filter (\<lambda>(k, v). \<not> geoip_set_name k) (ipsets w)"
      unfolding d i1 by simp
  qed
  show ?thesis
    by (rule exI[of _ gone]) (intro conjI a g(2)[unfolded i1, folded d] c)
qed

lemma cleanup_existing_ipsets_good:
  assumes nr: "never_rejects e"
  shows "\<exists>w'. cleanup_existing_ipsets e w = Some (True, w') \<and>
           ipsets w' = filter (\<lambda>(k, v). \<not> geoip_set_name k) (ipsets w) \<and>
           chain_v4 w' = filter (\<lambda>r. \<not> rule_marked ''geoip-firewall'' r) (chain_v4 w) \<and>
           chain_v6 w' = filter (\<lambda>r. \<not> rule_marked ''geoip-firewall'' r) (chain_v6 w)"
proof -
  from cleanup_rules_good[OF nr, of V4 w] obtain w1 where
    r1: "cleanup_rules e V4 w = Some (None, w1)"
    and c1: "chain V4 w1 = filter (\<lambda>r. \<not> rule_marked ''geoip-firewall'' r) (chain V4 w)"
    and o1: "\<forall>fam'. fam' \<noteq> V4 \<longrightarrow> chain fam' w1 = chain fam' w"
    by blast
  from cleanup_rules_good[OF nr, of V6 w1] obtain w2 where
    r2: "cleanup_rules e V6 w1 = Some (None, w2)"
    and c2: "chain V6 w2 = filter (\<lambda>r. \<not> rule_marked ''geoip-firewall'' r) (chain V6 w1)"
    and o2: "\<forall>fam'. fam' \<noteq> V6 \<longrightarrow> chain fam' w2 = chain fam' w1"
    by blast
  have res: "cleanup_existing_ipsets e w = Some (True, destroy_geoip_sets e w2)"
    using r1 r2 by (simp add: cleanup_existing_ipsets_def)
  have i1: "ipsets w1 = ipsets w" using cleanup_rules_cleaned[OF r1] by (simp add: rules_cleaned_def)
  have i2: "ipsets w2 = ipsets w1" using cleanup_rules_cleaned[OF r2] by (simp add: rules_cleaned_def)
  obtain gone where
    "ipsets (destroy_geoip_sets e w2) = filter (\<lambda>(k, v). k \<notin> set gone) (ipsets w2)"
    and d: "never_rejects e \<longrightarrow>
        ipsets (destroy_geoip_sets e w2) = filter (\<lambda>(k, v). \<not> geoip_set_name k) (ipsets w2)"
    using destroy_geoip_sets_ipsets[of e w2] by (elim exE conjE)
  from d nr have s: "ipsets (destroy_geoip_sets e w2) = filter (\<lambda>(k, v). \<not> geoip_set_name k) (ipsets w)"
    by (simp add: i1 i2)
  have v4: "chain_v4 w2 = filter (\<lambda>r. \<not> rule_marked ''geoip-firewall'' r) (chain_v4 w)"
    using c1 o2[rule_format, of V4] by (simp add: chain_def)
  have v6: "chain_v6 w2 = filter (\<lambda>r. \<not> rule_marked ''geoip-firewall'' r) (chain_v6 w)"
    using c2 o1[rule_format, of V6] by (simp add: chain_def)
  from destroy_geoip_sets_frame[of w2 e] v4 v6
  have "chain_v4 (destroy_geoip_sets e w2) = filter (\<lambda>r. \<not> rule_marked ''geoip-firewall'' r) (chain_v4 w)"
       "chain_v6 (destroy_geoip_sets e w2) = filter (\<lambda>r. \<not> rule_marked ''geoip-firewall'' r) (chain_v6 w)"
    by simp_all
  with res s show ?thesis by simp
qed

lemma cleanup_existing_ipsets_sets:
  assumes "cleanup_existing_ipsets e w = Some (b, w')"
  shows "\<exists>gone. (\<forall>n \<in> set gone. geoip_set_name n) \<and>
           ipsets w' = filter (\<lambda>(k, v). k \<notin> set gone) (ipsets w)"
proof -
  have keep: "\<exists>gone. (\<forall>n \<in> set gone. geoip_set_name n) \<and>
           ipsets w1 = filter (\<lambda>(k, v). k \<notin> set gone) (ipsets w)"
    if "ipsets w1 = ipsets w" for w1
    by (rule exI[of _ "[]"]) (simp add: that)
  show ?thesis
  proof (cases "cleanup_rules e V4 w")
    case None
    with assms show ?thesis by (simp add: cleanup_existing_ipsets_def)
  next
    case (Some y4)
    obtain err4 w1 where y4: "y4 = (err4, w1)" by (cases y4)
    have i1: "ipsets w1 = ipsets w" using cleanup_rules_cleaned[OF Some] y4 by (simp add: rules_cleaned_def)
    show ?thesis
    proof (cases err4)
      case (Some err)
      with assms \<open>cleanup_rules e V4 w = Some y4\<close> y4 have "w' = w1"
        by (simp add: cleanup_existing_ipsets_def)
      with keep[OF i1] show ?thesis by simp
    next
      case None
      note e4 = None
      show ?thesis
      proof (cases "cleanup_rules e V6 w1")
        case None
        with assms \<open>cleanup_rules e V4 w = Some y4\<close> y4 e4 show ?thesis
          by (simp add: cleanup_existing_ipsets_def)
      next
        case (Some y6)
        obtain err6 w2 where y6: "y6 = (err6, w2)" by (cases y6)
        have i2: "ipsets w2 = ipsets w"
          using cleanup_rules_cleaned[OF Some] y6 i1 by (simp add: rules_cleaned_def)
        show ?thesis
        proof (cases err6)
          case (Some err)
          with assms \<open>cleanup_rules e V4 w = Some y4\<close> \<open>cleanup_rules e V6 w1 = Some y6\<close> y4 y6 e4
          have "w' = w2" by (simp add: cleanup_existing_ipsets_def)
          with keep[OF i2] show ?thesis by simp
        next
          case None
          with assms \<open>cleanup_rules e V4 w = Some y4\<close> \<open>cleanup_rules e V6 w1 = Some y6\<close> y4 y6 e4
          have w': "w' = destroy_geoip_sets e w2" by (simp add: cleanup_existing_ipsets_def)
          obtain gone where
            g: "\<forall>n \<in> set gone. geoip_set_name n"
               "ipsets (destroy_geoip_sets e w2) = filter (\<lambda>(k, v). k \<notin> set gone) (ipsets w2)"
            using destroy_geoip_sets_ipsets[of e w2] by (elim exE conjE)
          show ?thesis
            by (rule exI[of _ gone]) (simp add: g w' i2[symmetric])
        qed
      qed
    qed
  qed
qed

section \<open>A deletion that keeps failing\<close>

lemma delete_marked_rules_stuck:
  assumes "delete_marked_rules e fam marker w = Some y"
  shows "\<not> stuck e fam marker w"
proof (rule delete_marked_rules.raw_induct
         [where P = "\<lambda>e fam marker w y. \<not> stuck e fam marker w", OF _ assms])
  fix loop e fam marker w y
  assume IH: "\<And>e fam marker w y. loop e fam marker w = Some y \<Longrightarrow> \<not> stuck e fam marker w"
    and body: "(let result = run_cmd e (IptList fam) w
         in case scan_lines marker (fst (snd result)) of
              NotFound \<Rightarrow> Some (None, snd (snd result))
            | Found line_num \<Rightarrow>
                loop e fam marker (snd (snd (run_cmd e (IptDelete fam line_num) (snd (snd result)))))
            | ScanRaised \<Rightarrow> Some (Some IndexError, snd (snd result))) = Some y"
  show "\<not> stuck e fam marker w"
  proof
    assume s: "stuck e fam marker w"
    then obtain line_num where f: "scan_lines marker (listing (chain fam w)) = Found line_num"
      by (auto simp: stuck_def)
    let ?w1 = "w\<lparr>trace := trace w @ [Kernel (IptList fam) True]\<rparr>"
    let ?w2 = "?w1\<lparr>trace := trace ?w1 @ [Kernel (IptDelete fam line_num) False]\<rparr>"
    from s have l: "run_cmd e (IptList fam) w = (True, listing (chain fam w), ?w1)"
      by (simp add: stuck_def run_cmd_def)
    from s have d: "run_cmd e (IptDelete fam line_num) ?w1 = (False, [''''], ?w2)"
      by (simp add: stuck_def run_cmd_def)
    from body have "loop e fam marker ?w2 = Some y"
      by (simp add: l f d Let_def)
    from IH[OF this] have "\<not> stuck e fam marker ?w2" .
    moreover from s have "stuck e fam marker ?w2"
      by (simp add: stuck_def chain_trace_update)
    ultimately show False by simp
  qed
qed

lemma stuck_never_returns: "stuck e fam marker w \<Longrightarrow> delete_marked_rules e fam marker w = None"
  using delete_marked_rules_stuck[of e fam marker w] by (cases "delete_marked_rules e fam marker w") auto

text \<open>
  C10 holds for every call that returns (the result is then \<open>True\<close>, whatever failed),
  but not every call returns. The deletion loop sets \<^verbatim>\<open>found\<close> without looking at the
  result of \<^verbatim>\<open>iptables -D\<close>; when the kernel refuses the deletion, the same rule is found
  again on the next listing and the loop never ends. Here the chain holds one rule
  marked \<^verbatim>\<open>geoip-firewall-drop\<close> and every deletion is rejected: the cleanup does not
  return.
\<close>

theorem C10_cleanup_loops_on_rejected_delete:
  "stuck delete_rejecting_env V4 ''geoip-firewall-drop'' stale_world \<and>
   cleanup_existing_ipsets delete_rejecting_env stale_world = None"
proof -
  have f: "scan_lines ''geoip-firewall-drop'' (listing (chain V4 stale_world)) = Found ''2''"
    by code_simp
  have s: "stuck delete_rejecting_env V4 ''geoip-firewall-drop'' stale_world"
    unfolding stuck_def using f
    by (simp add: delete_rejecting_env_def example_env_def)
  from stuck_never_returns[OF s] have "cleanup_rules delete_rejecting_env V4 stale_world = None"
    by (simp add: cleanup_rules_def)
  then have "cleanup_existing_ipsets delete_rejecting_env stale_world = None"
    by (simp add: cleanup_existing_ipsets_def)
  with s show ?thesis by simp
qed

section \<open>Which sets the cleanup destroys\<close>

text \<open>
  C7 says that the cleanup spares the sets that are about to be repopulated. It does
  not look at the new dictionary at all. Here the kernel holds the set \<^verbatim>\<open>country-KR\<close>,
  the database that is about to be applied still has the country KR, and the cleanup
  destroys the set.
\<close>

theorem C7_counterexample:
  "set_exists steady_world (set_name_v4 ''KR'') \<and>
   map fst (parse_mmdb_to_country_ipranges example_env steady_world) = [''KR'', ''US''] \<and>
   cleanup_existing_ipsets example_env steady_world =
     Some (True, steady_world\<lparr>ipsets := [],
        trace := [Kernel (IptList V4) True, Kernel (IptList V4) True,
                  Kernel (IptList V6) True, Kernel (IptList V6) True,
                  Kernel IpsetListNames True, Kernel (IpsetDestroy ''country-KR'') True]\<rparr>) \<and>
   \<not> set_exists (steady_world\<lparr>ipsets := [],
        trace := [Kernel (IptList V4) True, Kernel (IptList V4) True,
                  Kernel (IptList V6) True, Kernel (IptList V6) True,
                  Kernel IpsetListNames True, Kernel (IpsetDestroy ''country-KR'') True]\<rparr>)
      (set_name_v4 ''KR'')"
  by code_simp

text \<open>
  C7, amended. The cleanup destroys the kernel address sets whose names start with
  \<^verbatim>\<open>country-\<close> or \<^verbatim>\<open>geoip-\<close>, whether or not they are about to be repopulated, and no
  other set: the sets left are the old ones without some sets of such a name, and, when
  the kernel rejects nothing, without all of them.
\<close>

theorem C7_cleanup_destroys_every_geoip_set:
  "cleanup_existing_ipsets e w = Some (b, w') \<longrightarrow>
     (\<exists>gone. (\<forall>n \<in> set gone. geoip_set_name n) \<and>
              ipsets w' = filter (\<lambda>(k, v). k \<notin> set gone) (ipsets w)) \<and>
     (never_rejects e \<longrightarrow> ipsets w' = filter (\<lambda>(k, v). \<not> geoip_set_name k) (ipsets w))"
proof
  assume a: "cleanup_existing_ipsets e w = Some (b, w')"
  have g: "never_rejects e \<longrightarrow> ipsets w' = filter (\<lambda>(k, v). \<not> geoip_set_name k) (ipsets w)"
  proof
    assume "never_rejects e"
    from cleanup_existing_ipsets_good[OF this, of w] a
    show "ipsets w' = filter (\<lambda>(k, v). \<not> geoip_set_name k) (ipsets w)" by auto
  qed
  show "(\<exists>gone. (\<forall>n \<in> set gone. geoip_set_name n) \<and>
              ipsets w' = filter (\<lambda>(k, v). k \<notin> set gone) (ipsets w)) \<and>
     (never_rejects e \<longrightarrow> ipsets w' = filter (\<lambda>(k, v). \<not> geoip_set_name k) (ipsets w))"
    using cleanup_existing_ipsets_sets[OF a] g by (rule conjI)
qed

theorem C7_witness:
  "never_rejects example_env \<and>
   cleanup_existing_ipsets example_env
     (steady_world\<lparr>ipsets := [(''country-KR'', [''1.0.0.0/24'']), (''blocklist'', [''9.9.9.9''])]\<rparr>) =
     Some (True, snd (the (cleanup_existing_ipsets example_env
       (steady_world\<lparr>ipsets := [(''country-KR'', [''1.0.0.0/24'']), (''blocklist'', [''9.9.9.9''])]\<rparr>)))) \<and>
   ipsets (snd (the (cleanup_existing_ipsets example_env
       (steady_world\<lparr>ipsets := [(''country-KR'', [''1.0.0.0/24'']), (''blocklist'', [''9.9.9.9''])]\<rparr>)))) =
     [(''blocklist'', [''9.9.9.9''])]"
proof -
  let ?w = "steady_world\<lparr>ipsets := [(''country-KR'', [''1.0.0.0/24'']), (''blocklist'', [''9.9.9.9''])]\<rparr>"
  from cleanup_existing_ipsets_good[OF example_env_never_rejects, of ?w]
  obtain w' where r: "cleanup_existing_ipsets example_env ?w = Some (True, w')" by blast
  then have h: "cleanup_existing_ipsets example_env ?w =
                  Some (True, snd (the (cleanup_existing_ipsets example_env ?w)))" by simp
  have f: "filter (\<lambda>(k, v). \<not> geoip_set_name k) (ipsets ?w) = [(''blocklist'', [''9.9.9.9''])]"
    by (simp add: geoip_set_name_def startswith_def)
  from C7_cleanup_destroys_every_geoip_set
         [of example_env ?w True "snd (the (cleanup_existing_ipsets example_env ?w))"]
       h example_env_never_rejects
  have "ipsets (snd (the (cleanup_existing_ipsets example_env ?w))) =
          filter (\<lambda>(k, v). \<not> geoip_set_name k) (ipsets ?w)"
    by simp
  with f h example_env_never_rejects show ?thesis by simp
qed

section \<open>The address sets on a kernel that rejects nothing\<close>

lemma country_commands_groups:
  "country_commands entry = concat (map group_commands (country_groups entry))"
  by (simp add: country_commands_def country_groups_def group_commands_def Let_def)

lemma all_commands_groups:
  "concat (map country_commands m) = concat (map group_commands (concat (map country_groups m)))"
  by (induction m) (simp_all add: country_commands_groups)

lemma foldl_add_entry:
  "foldl add_entry sets (map (\<lambda>ip. (n, ip)) rs) =
     map (\<lambda>kv. if fst kv = n then (fst kv, snd kv @ rs) else kv) sets"
proof (induction rs arbitrary: sets)
  case Nil
  show ?case by (induction sets) auto
next
  case (Cons ip rs)
  show ?case
    unfolding list.map foldl_Cons Cons.IH
    by (auto simp: case_prod_beta comp_def)
qed

lemma new_set_unchanged:
  assumes "n \<notin> fst ` set sets" and "\<And>kv. fst kv \<noteq> n \<Longrightarrow> f kv = kv"
  shows "map f sets = sets"
  using assms(1) by (induction sets) (auto simp: assms(2))

lemma group_good:
  assumes nr: "never_rejects e" and new: "\<not> set_exists w n"
  shows "run_checked e (ipset_commands n fam rs) w =
           (True, w\<lparr>ipsets := ipsets w @ [(n, rs)],
                    trace := trace w @ map (\<lambda>c. Kernel c True) (ipset_commands n fam rs)\<rparr>)"
proof -
  from new have nn: "n \<notin> fst ` set (ipsets w)" by (simp add: set_exists_def)
  let ?w1 = "w\<lparr>ipsets := ipsets w @ [(n, [])],
                trace := trace w @ [Kernel (IpsetCreate n fam (max_size (length rs))) True]\<rparr>"
  have c: "run_cmd e (IpsetCreate n fam (max_size (length rs))) w = (True, [''''], ?w1)"
    using new by (simp add: run_cmd_good[OF nr])
  have ex1: "set_exists ?w1 n" by (simp add: set_exists_def)
  have fl: "map (\<lambda>(k, v). if k = n then (k, []) else (k, v)) (ipsets w @ [(n, [])]) = ipsets w @ [(n, [])]"
    using new_set_unchanged[OF nn, of "\<lambda>(k, v). if k = n then (k, []) else (k, v)"]
    by (simp add: case_prod_beta)
  let ?w2 = "w\<lparr>ipsets := ipsets w @ [(n, [])],
                trace := trace w @ [Kernel (IpsetCreate n fam (max_size (length rs))) True,
                                    Kernel (IpsetFlush n) True]\<rparr>"
  have f: "run_cmd e (IpsetFlush n) ?w1 = (True, [''''], ?w2)"
    using ex1 fl by (simp add: run_cmd_good[OF nr])
  have ex2: "list_all (\<lambda>(k, ip). set_exists ?w2 k) (map (Pair n) rs)"
    by (simp add: list_all_iff set_exists_def)
  have ad: "foldl add_entry (ipsets ?w2) (map (Pair n) rs) = ipsets w @ [(n, rs)]"
    using foldl_add_entry[of "ipsets ?w2" n rs]
          new_set_unchanged[OF nn, of "\<lambda>kv. if fst kv = n then (fst kv, snd kv @ rs) else kv"]
    by simp
  let ?w3 = "w\<lparr>ipsets := ipsets w @ [(n, rs)],
                trace := trace w @ [Kernel (IpsetCreate n fam (max_size (length rs))) True,
                                    Kernel (IpsetFlush n) True,
                                    Kernel (IpsetRestore (map (Pair n) rs)) True]\<rparr>"
  have r: "run_cmd e (IpsetRestore (map (Pair n) rs)) ?w2 = (True, [''''], ?w3)"
    using ex2 ad by (simp add: run_cmd_good[OF nr])
  show ?thesis
    by (simp add: ipset_commands_def c f r)
qed

lemma groups_good:
  assumes nr: "never_rejects e"
  shows "distinct (map fst gs) \<Longrightarrow> \<forall>g \<in> set gs. \<not> set_exists w (fst g) \<Longrightarrow>
         run_checked e (concat (map group_commands gs)) w =
           (True, w\<lparr>ipsets := ipsets w @ map (\<lambda>g. (fst g, snd (snd g))) gs,
                    trace := trace w @ map (\<lambda>c. Kernel c True) (concat (map group_commands gs))\<rparr>)"
proof (induction gs arbitrary: w)
  case Nil
  show ?case by simp
next
  case (Cons g gs)
  obtain n fam rs where g: "g = (n, fam, rs)" by (cases g)
  let ?w1 = "w\<lparr>ipsets := ipsets w @ [(n, rs)],
                trace := trace w @ map (\<lambda>c. Kernel c True) (ipset_commands n fam rs)\<rparr>"
  from Cons.prems g have new: "\<not> set_exists w n" by simp
  have r1: "run_checked e (group_commands g) w = (True, ?w1)"
    using group_good[OF nr new, of fam rs] by (simp add: group_commands_def g)
  have d: "distinct (map fst gs)" using Cons.prems by simp
  have n1: "\<forall>g' \<in> set gs. \<not> set_exists ?w1 (fst g')"
    using Cons.prems g by (auto simp: set_exists_def)
  from Cons.IH[OF d n1] r1 show ?case
    by (simp add: run_checked_append g group_commands_def)
qed

lemma apply_native_ipset_good:
  assumes nr: "never_rejects e"
    and d: "distinct (map fst (expected_sets m))"
    and new: "\<forall>n \<in> fst ` set (expected_sets m). \<not> set_exists w n"
  shows "apply_native_ipset e m w =
           (True, w\<lparr>ALL_COUNTRIES := map fst m,
                    ipsets := ipsets w @ expected_sets m,
                    trace := trace w @ map (\<lambda>c. Kernel c True) (concat (map country_commands m))\<rparr>)"
proof -
  let ?gs = "concat (map country_groups m)"
  let ?w0 = "w\<lparr>ALL_COUNTRIES := map fst m\<rparr>"
  have e: "map fst (expected_sets m) = map fst ?gs"
    by (simp add: expected_sets_def comp_def)
  from d have d': "distinct (map fst ?gs)" unfolding e .
  from new have n': "\<forall>g \<in> set ?gs. \<not> set_exists ?w0 (fst g)"
    by (auto simp: expected_sets_def set_exists_def image_iff)
  from groups_good[OF nr d' n'] show ?thesis
    by (simp add: apply_native_ipset_run_checked all_commands_groups expected_sets_def)
qed

lemma expected_sets_names: "n \<in> fst ` set (expected_sets m) \<Longrightarrow> geoip_set_name n"
  by (auto simp: expected_sets_def country_groups_def Let_def geoip_set_name_def startswith_def
        set_name_v4_def set_name_v6_def split: if_splits)

lemma set_step_mutating: "set_step ev \<Longrightarrow> mutating ev"
  by (induction ev rule: set_step.induct) simp_all

section \<open>The rebuild on a kernel that rejects nothing\<close>

lemma smart_update_rebuild_frame:
  assumes "smart_update_rebuild e w = Some (r, w')"
  shows "same_files w w' \<and> extends (\<lambda>ev. \<not> network ev) w w' \<and>
         (r = Inr True \<longrightarrow> ALL_COUNTRIES w' = map fst (parse_mmdb_to_country_ipranges e w))"
proof (cases "parse_mmdb_to_country_ipranges e w = []")
  case True
  with assms show ?thesis
    by (auto simp: smart_update_rebuild_def same_files_refl extends_refl)
next
  case False
  define m where "m = parse_mmdb_to_country_ipranges e w"
  from assms False obtain cleaned w1 where c: "cleanup_existing_ipsets e w = Some (cleaned, w1)"
    by (auto simp: smart_update_rebuild_def Let_def split: option.splits)
  obtain ok2 w2 where a: "apply_native_ipset e m w1 = (ok2, w2)"
    by (cases "apply_native_ipset e m w1")
  obtain ok3 w3 where s: "setup_firewall_rules e ALLOWED_COUNTRIES w2 = (ok3, w3)"
    by (cases "setup_firewall_rules e ALLOWED_COUNTRIES w2")
  from cleanup_existing_ipsets_frame[OF c]
  have f1: "same_files w w1" and x1: "extends cleanup_event w w1" by simp_all
  from apply_native_ipset_frame[OF a]
  have f2: "same_files w1 w2" and x2: "extends set_step w1 w2" and c2: "ALL_COUNTRIES w2 = map fst m"
    by simp_all
  from setup_firewall_rules_built[of w2 e ALLOWED_COUNTRIES] s
  have f3: "same_files w2 w3" and x3: "extends setup_event w2 w3" and c3: "ALL_COUNTRIES w3 = ALL_COUNTRIES w2"
    by (simp_all add: rules_built_def)
  have n1: "extends (\<lambda>ev. \<not> network ev) w w1"
    by (rule extends_mono[OF x1]) (erule cleanup_event.elims; simp)
  have n2: "extends (\<lambda>ev. \<not> network ev) w1 w2"
    by (rule extends_mono[OF x2]) (erule set_step.elims; simp)
  have n3: "extends (\<lambda>ev. \<not> network ev) w2 w3"
    by (rule extends_mono[OF x3]) (erule setup_event.elims; simp)
  have f12: "same_files w w2" using f1 f2 by (rule same_files_trans)
  have n12: "extends (\<lambda>ev. \<not> network ev) w w2" using n1 n2 by (rule extends_trans)
  show ?thesis
  proof (cases ok2)
    case False
    with assms \<open>parse_mmdb_to_country_ipranges e w \<noteq> []\<close> c a
    have "r = Inr False" "w' = w2" by (auto simp: smart_update_rebuild_def Let_def m_def)
    with f12 n12 show ?thesis by simp
  next
    case True
    with assms \<open>parse_mmdb_to_country_ipranges e w \<noteq> []\<close> c a s
    have "w' = w3" by (auto simp: smart_update_rebuild_def Let_def m_def split: bool.splits)
    with f12 f3 n12 n3 c2 c3 show ?thesis
      by (auto simp: m_def intro: same_files_trans extends_trans)
  qed
qed

lemma smart_update_rebuild_good:
  assumes nr: "never_rejects e"
    and m: "parse_mmdb_to_country_ipranges e w = m" "m \<noteq> []"
    and d: "distinct (map fst (expected_sets m))"
  shows "\<exists>w'. smart_update_rebuild e w = Some (Inr True, w') \<and>
           ipsets w' = filter (\<lambda>(k, v). \<not> geoip_set_name k) (ipsets w) @ expected_sets m \<and>
           chain_v4 w' = filter (\<lambda>r. \<not> rule_marked ''geoip-firewall'' r) (chain_v4 w)
             @ generated_chain V4 (present w' V4 ALLOWED_COUNTRIES)
                 (present w' V4 (filter (\<lambda>c. c \<notin> set ALLOWED_COUNTRIES) (map fst m))) \<and>
           chain_v6 w' = filter (\<lambda>r. \<not> rule_marked ''geoip-firewall'' r) (chain_v6 w)
             @ generated_chain V6 (present w' V6 ALLOWED_COUNTRIES)
                 (present w' V6 (filter (\<lambda>c. c \<notin> set ALLOWED_COUNTRIES) (map fst m))) \<and>
           ALL_COUNTRIES w' = map fst m \<and>
           (\<forall>c \<in> set (concat (map country_commands m)). Kernel c True \<in> set (events_since w w'))"
proof -
  from cleanup_existing_ipsets_good[OF nr, of w] obtain w1 where
    c: "cleanup_existing_ipsets e w = Some (True, w1)"
    and i1: "ipsets w1 = filter (\<lambda>(k, v). \<not> geoip_set_name k) (ipsets w)"
    and c41: "chain_v4 w1 = filter (\<lambda>r. \<not> rule_marked ''geoip-firewall'' r) (chain_v4 w)"
    and c61: "chain_v6 w1 = filter (\<lambda>r. \<not> rule_marked ''geoip-firewall'' r) (chain_v6 w)"
    by blast
  have new: "\<forall>n \<in> fst ` set (expected_sets m). \<not> set_exists w1 n"
  proof
    fix n assume "n \<in> fst ` set (expected_sets m)"
    then have "geoip_set_name n" by (rule expected_sets_names)
    then show "\<not> set_exists w1 n" unfolding set_exists_def i1 by (auto simp: case_prod_beta)
  qed
  define w2 where "w2 = w1\<lparr>ALL_COUNTRIES := map fst m, ipsets := ipsets w1 @ expected_sets m,
                    trace := trace w1 @ map (\<lambda>c. Kernel c True) (concat (map country_commands m))\<rparr>"
  have a: "apply_native_ipset e m w1 = (True, w2)"
    unfolding w2_def by (rule apply_native_ipset_good[OF nr d new])
  from setup_firewall_rules_good[OF nr, of ALLOWED_COUNTRIES w2] obtain w3 where
    s: "setup_firewall_rules e ALLOWED_COUNTRIES w2 = (True, w3)"
    and g: "grows w2 w3
             (generated_chain V4 (present w2 V4 ALLOWED_COUNTRIES)
                (present w2 V4 (filter (\<lambda>c. c \<notin> set ALLOWED_COUNTRIES) (ALL_COUNTRIES w2))))
             (generated_chain V6 (present w2 V6 ALLOWED_COUNTRIES)
                (present w2 V6 (filter (\<lambda>c. c \<notin> set ALLOWED_COUNTRIES) (ALL_COUNTRIES w2))))"
    by blast
  have res: "smart_update_rebuild e w = Some (Inr True, w3)"
    using m c a s by (simp add: smart_update_rebuild_def)
  have i3: "ipsets w3 = ipsets w2" using g by (simp add: grows_def)
  have p: "present w3 fam cs = present w2 fam cs" for fam cs
    by (rule present_frame[OF i3])
  have x1: "extends cleanup_event w w1" using cleanup_existing_ipsets_frame[OF c] by simp
  have x3: "extends setup_event w2 w3"
    using setup_firewall_rules_built[of w2 e ALLOWED_COUNTRIES] s by (simp add: rules_built_def)
  from x1 obtain ev1 where t1: "trace w1 = trace w @ ev1" by (auto simp: extends_def)
  from x3 obtain ev3 where t3: "trace w3 = trace w2 @ ev3" by (auto simp: extends_def)
  have ev: "events_since w w3 = ev1 @ map (\<lambda>c. Kernel c True) (concat (map country_commands m)) @ ev3"
    by (simp add: events_since_def t3 w2_def t1)
  have "ipsets w3 = filter (\<lambda>(k, v). \<not> geoip_set_name k) (ipsets w) @ expected_sets m"
    by (simp add: i3 w2_def i1)
  moreover have "chain_v4 w3 = filter (\<lambda>r. \<not> rule_marked ''geoip-firewall'' r) (chain_v4 w)
             @ generated_chain V4 (present w3 V4 ALLOWED_COUNTRIES)
                 (present w3 V4 (filter (\<lambda>c. c \<notin> set ALLOWED_COUNTRIES) (map fst m)))"
    using g unfolding p by (simp add: grows_def w2_def c41)
  moreover have "chain_v6 w3 = filter (\<lambda>r. \<not> rule_marked ''geoip-firewall'' r) (chain_v6 w)
             @ generated_chain V6 (present w3 V6 ALLOWED_COUNTRIES)
                 (present w3 V6 (filter (\<lambda>c. c \<notin> set ALLOWED_COUNTRIES) (map fst m)))"
    using g unfolding p by (simp add: grows_def w2_def c61)
  moreover have "ALL_COUNTRIES w3 = map fst m" using g by (simp add: grows_def w2_def)
  moreover have "\<forall>c \<in> set (concat (map country_commands m)). Kernel c True \<in> set (events_since w w3)"
    unfolding ev by auto
  ultimately show ?thesis using res by blast
qed

section \<open>The dictionary the reader builds\<close>

lemma dict_append_keys:
  "map fst (dict_append d k v) = (if k \<in> set (map fst d) then map fst d else map fst d @ [k])"
  by (induction d k v rule: dict_append.induct) auto

lemma dict_append_distinct: "distinct (map fst d) \<Longrightarrow> distinct (map fst (dict_append d k v))"
  by (simp add: dict_append_keys)

lemma add_network_distinct: "distinct (map fst d) \<Longrightarrow> distinct (map fst (add_network d record))"
  by (cases "(d, record)" rule: add_network.cases) (simp_all add: dict_append_distinct)

lemma foldl_add_network_distinct:
  "distinct (map fst d) \<Longrightarrow> distinct (map fst (foldl add_network d records))"
  by (induction records arbitrary: d) (simp_all add: add_network_distinct)

lemma parse_distinct_keys: "distinct (map fst (parse_mmdb_to_country_ipranges e w))"
  by (simp add: parse_mmdb_to_country_ipranges_def foldl_add_network_distinct split: option.splits)

lemma set_name_v4_inject: "set_name_v4 a = set_name_v4 b \<Longrightarrow> a = b"
  by (simp add: set_name_v4_def)

lemma set_name_v6_inject: "set_name_v6 a = set_name_v6 b \<Longrightarrow> a = b"
  by (simp add: set_name_v6_def)

lemma set_name_v4_v6_same: "set_name_v4 a \<noteq> set_name_v6 a"
  by (simp add: set_name_v4_def set_name_v6_def)

lemma country_groups_names:
  "map fst (country_groups (cc, rs)) =
     (if filter (\<lambda>ip. \<not> is_ipv6 ip) rs \<noteq> [] then [set_name_v4 cc] else [])
     @ (if filter is_ipv6 rs \<noteq> [] then [set_name_v6 cc] else [])"
  by (simp add: country_groups_def Let_def)

lemma expected_sets_Cons:
  "map fst (expected_sets (entry # m)) = map fst (country_groups entry) @ map fst (expected_sets m)"
  by (simp add: expected_sets_def comp_def)

lemma expected_sets_name_cases:
  "n \<in> set (map fst (expected_sets m)) \<Longrightarrow>
     \<exists>cc \<in> set (map fst m). n = set_name_v4 cc \<or> n = set_name_v6 cc"
proof (induction m)
  case Nil
  then show ?case by (simp add: expected_sets_def)
next
  case (Cons entry m)
  obtain cc rs where e: "entry = (cc, rs)" by (cases entry)
  from Cons.prems have "n \<in> set (map fst (country_groups entry)) \<or> n \<in> set (map fst (expected_sets m))"
    unfolding expected_sets_Cons by simp
  then show ?case
  proof
    assume "n \<in> set (map fst (country_groups entry))"
    then have "n = set_name_v4 cc \<or> n = set_name_v6 cc"
      unfolding e country_groups_names by (auto split: if_splits)
    with e show ?thesis by auto
  next
    assume "n \<in> set (map fst (expected_sets m))"
    from Cons.IH[OF this] show ?thesis by auto
  qed
qed

lemma expected_sets_distinct:
  "distinct (map fst m) \<Longrightarrow> \<forall>cc \<in> set (map fst m). length cc = 2 \<Longrightarrow>
     distinct (map fst (expected_sets m))"
proof (induction m)
  case Nil
  show ?case by (simp add: expected_sets_def)
next
  case (Cons entry m)
  obtain cc rs where e: "entry = (cc, rs)" by (cases entry)
  from Cons.prems e have cc: "cc \<notin> set (map fst m)" "length cc = 2"
    and d: "distinct (map fst m)" and l: "\<forall>cc \<in> set (map fst m). length cc = 2"
    by auto
  have own: "distinct (map fst (country_groups entry))"
    unfolding e country_groups_names using set_name_v4_v6_same[of cc] by simp
  have apart: "n \<in> set (map fst (country_groups entry)) \<Longrightarrow> n \<notin> set (map fst (expected_sets m))" for n
  proof
    assume a: "n \<in> set (map fst (country_groups entry))" and b: "n \<in> set (map fst (expected_sets m))"
    from a have n: "n = set_name_v4 cc \<or> n = set_name_v6 cc"
      unfolding e country_groups_names by (auto split: if_splits)
    from expected_sets_name_cases[OF b] obtain cc' where
      c': "cc' \<in> set (map fst m)" and n': "n = set_name_v4 cc' \<or> n = set_name_v6 cc'"
      by blast
    from c' l have l': "length cc' = 2" by blast
    from c' cc(1) have ne: "cc \<noteq> cc'" by auto
    from n n' ne set_name_v4_v6_distinct[OF cc(2) l'] set_name_v4_v6_distinct[OF l' cc(2)]
    show False by (auto dest: set_name_v4_inject set_name_v6_inject)
  qed
  from Cons.IH[OF d l] own apart show ?case
    unfolding expected_sets_Cons by (auto simp: distinct_append)
qed

section \<open>Reboot recovery\<close>

lemma parse_same_file:
  "mmdb_file w' = mmdb_file w \<Longrightarrow>
     parse_mmdb_to_country_ipranges e w' = parse_mmdb_to_country_ipranges e w"
  by (simp add: parse_mmdb_to_country_ipranges_def)

lemma run_cmd_list_names_world:
  "snd (snd (run_cmd e IpsetListNames w)) =
     w\<lparr>trace := trace w @ [Kernel IpsetListNames (fst (run_cmd e IpsetListNames w))]\<rparr>"
  by (simp add: run_cmd_list_names)

lemma reboot_detect:
  assumes cnt: "ipset_count_of (fst (snd (run_cmd e IpsetListNames w))) = 0"
    and db: "mmdb_file w = Some content"
  shows "smart_update_detect e w =
           (Proceed,
            w\<lparr>hash_file := Some (case hash_file w of None \<Rightarrow> sha256_hex e content | Some h \<Rightarrow> h),
              trace := trace w @ [Kernel IpsetListNames (fst (run_cmd e IpsetListNames w))]\<rparr>)"
proof -
  define ok0 where "ok0 = fst (run_cmd e IpsetListNames w)"
  have w0: "snd (snd (run_cmd e IpsetListNames w)) = w\<lparr>trace := trace w @ [Kernel IpsetListNames ok0]\<rparr>"
    unfolding ok0_def by (rule run_cmd_list_names_world)
  show ?thesis
  proof (cases "hash_file w")
    case None
    then show ?thesis
      using cnt db unfolding smart_update_detect_def Let_def w0 ok0_def[symmetric]
      by (simp add: check_file_hash_changed_def)
  next
    case (Some h)
    have "w\<lparr>hash_file := Some h, trace := trace w @ [Kernel IpsetListNames ok0]\<rparr> =
          w\<lparr>trace := trace w @ [Kernel IpsetListNames ok0]\<rparr>"
      using Some by simp
    with Some show ?thesis
      using cnt db unfolding smart_update_detect_def Let_def w0 ok0_def[symmetric]
      by simp
  qed
qed

text \<open>
  C4. When the listing shows no country set and the database file exists, \<open>smart_update\<close>
  makes no network call: whatever it returns, the events of the run hold neither the
  HEAD request nor a download, the database file is the one that was there, the
  metadata record is untouched, and the content hash is persisted when it was absent.
  The dictionary that is applied is the parse of that file. On a kernel that rejects
  nothing, with a non-empty dictionary of two-letter codes, the run returns \<open>True\<close>;
  afterwards the address sets are the sets of foreign names that were there followed by
  one set per country and family with exactly that country's prefixes of that family,
  and each chain is what was there without the rules of earlier generations followed
  by the generated chain: read back rule by rule, the stateful accept, the loopback
  accept, the private networks, log and accept per allowed country, log and drop per
  blocked country, the default log and the unconditional drop.
\<close>

theorem C4_reboot_recovery:
  "ipset_count_of (fst (snd (run_cmd e IpsetListNames w))) = 0 \<and> mmdb_file w = Some content \<longrightarrow>
     (\<forall>r w'. smart_update e w = Some (r, w') \<longrightarrow>
        \<not> list_ex network (events_since w w') \<and>
        mmdb_file w' = Some content \<and> last_check_file w' = last_check_file w \<and>
        hash_file w' = Some (case hash_file w of None \<Rightarrow> sha256_hex e content | Some h \<Rightarrow> h) \<and>
        (r = Inr True \<longrightarrow> ALL_COUNTRIES w' = map fst (parse_mmdb_to_country_ipranges e w))) \<and>
     (never_rejects e \<and> parse_mmdb_to_country_ipranges e w \<noteq> [] \<and>
      (\<forall>cc \<in> set (map fst (parse_mmdb_to_country_ipranges e w)). length cc = 2) \<longrightarrow>
        (\<exists>w'. smart_update e w = Some (Inr True, w') \<and>
           ipsets w' = filter (\<lambda>(k, v). \<not> geoip_set_name k) (ipsets w)
                       @ expected_sets (parse_mmdb_to_country_ipranges e w) \<and>
           chain_v4 w' = filter (\<lambda>r. \<not> rule_marked ''geoip-firewall'' r) (chain_v4 w)
             @ generated_chain V4 (present w' V4 ALLOWED_COUNTRIES)
                 (present w' V4 (filter (\<lambda>c. c \<notin> set ALLOWED_COUNTRIES)
                                    (map fst (parse_mmdb_to_country_ipranges e w)))) \<and>
           chain_v6 w' = filter (\<lambda>r. \<not> rule_marked ''geoip-firewall'' r) (chain_v6 w)
             @ generated_chain V6 (present w' V6 ALLOWED_COUNTRIES)
                 (present w' V6 (filter (\<lambda>c. c \<notin> set ALLOWED_COUNTRIES)
                                    (map fst (parse_mmdb_to_country_ipranges e w)))) \<and>
           map classify (chain_v4 w') = map classify (filter (\<lambda>r. \<not> rule_marked ''geoip-firewall'' r) (chain_v4 w))
             @ chain_order V4 (present w' V4 ALLOWED_COUNTRIES)
                 (present w' V4 (filter (\<lambda>c. c \<notin> set ALLOWED_COUNTRIES)
                                    (map fst (parse_mmdb_to_country_ipranges e w)))) \<and>
           map classify (chain_v6 w') = map classify (filter (\<lambda>r. \<not> rule_marked ''geoip-firewall'' r) (chain_v6 w))
             @ chain_order V6 (present w' V6 ALLOWED_COUNTRIES)
                 (present w' V6 (filter (\<lambda>c. c \<notin> set ALLOWED_COUNTRIES)
                                    (map fst (parse_mmdb_to_country_ipranges e w))))))"
proof (intro impI)
  assume a: "ipset_count_of (fst (snd (run_cmd e IpsetListNames w))) = 0 \<and> mmdb_file w = Some content"
  define ok0 where "ok0 = fst (run_cmd e IpsetListNames w)"
  define wd where "wd = w\<lparr>hash_file := Some (case hash_file w of None \<Rightarrow> sha256_hex e content | Some h \<Rightarrow> h),
              trace := trace w @ [Kernel IpsetListNames ok0]\<rparr>"
  define m where "m = parse_mmdb_to_country_ipranges e w"
  from a have det: "smart_update_detect e w = (Proceed, wd)"
    unfolding wd_def ok0_def by (intro reboot_detect) simp_all
  then have su: "smart_update e w = smart_update_rebuild e wd"
    by (simp add: smart_update_def)
  have pm: "parse_mmdb_to_country_ipranges e wd = m"
    unfolding m_def by (rule parse_same_file) (simp add: wd_def)
  have first: "\<not> list_ex network (events_since w w') \<and>
        mmdb_file w' = Some content \<and> last_check_file w' = last_check_file w \<and>
        hash_file w' = Some (case hash_file w of None \<Rightarrow> sha256_hex e content | Some h \<Rightarrow> h) \<and>
        (r = Inr True \<longrightarrow> ALL_COUNTRIES w' = map fst m)"
    if r: "smart_update e w = Some (r, w')" for r w'
  proof -
    from r su have rb: "smart_update_rebuild e wd = Some (r, w')" by simp
    from smart_update_rebuild_frame[OF rb] pm
    have f: "same_files wd w'" and x: "extends (\<lambda>ev. \<not> network ev) wd w'"
      and c: "r = Inr True \<longrightarrow> ALL_COUNTRIES w' = map fst m"
      by simp_all
    from x obtain evs where t: "trace w' = trace wd @ evs" and n: "list_all (\<lambda>ev. \<not> network ev) evs"
      by (auto simp: extends_def)
    have "events_since w w' = Kernel IpsetListNames ok0 # evs"
      by (simp add: events_since_def t wd_def)
    with n have "\<not> list_ex network (events_since w w')"
      by (auto simp: list_ex_iff list_all_iff)
    with f c a show ?thesis by (simp add: same_files_def wd_def)
  qed
  have second: "\<exists>w'. smart_update e w = Some (Inr True, w') \<and>
           ipsets w' = filter (\<lambda>(k, v). \<not> geoip_set_name k) (ipsets w) @ expected_sets m \<and>
           chain_v4 w' = filter (\<lambda>r. \<not> rule_marked ''geoip-firewall'' r) (chain_v4 w)
             @ generated_chain V4 (present w' V4 ALLOWED_COUNTRIES)
                 (present w' V4 (filter (\<lambda>c. c \<notin> set ALLOWED_COUNTRIES) (map fst m))) \<and>
           chain_v6 w' = filter (\<lambda>r. \<not> rule_marked ''geoip-firewall'' r) (chain_v6 w)
             @ generated_chain V6 (present w' V6 ALLOWED_COUNTRIES)
                 (present w' V6 (filter (\<lambda>c. c \<notin> set ALLOWED_COUNTRIES) (map fst m))) \<and>
           map classify (chain_v4 w') = map classify (filter (\<lambda>r. \<not> rule_marked ''geoip-firewall'' r) (chain_v4 w))
             @ chain_order V4 (present w' V4 ALLOWED_COUNTRIES)
                 (present w' V4 (filter (\<lambda>c. c \<notin> set ALLOWED_COUNTRIES) (map fst m))) \<and>
           map classify (chain_v6 w') = map classify (filter (\<lambda>r. \<not> rule_marked ''geoip-firewall'' r) (chain_v6 w))
             @ chain_order V6 (present w' V6 ALLOWED_COUNTRIES)
                 (present w' V6 (filter (\<lambda>c. c \<notin> set ALLOWED_COUNTRIES) (map fst m)))"
    if g: "never_rejects e \<and> m \<noteq> [] \<and> (\<forall>cc \<in> set (map fst m). length cc = 2)"
  proof -
    have dk: "distinct (map fst m)" unfolding m_def by (rule parse_distinct_keys)
    from g have d: "distinct (map fst (expected_sets m))"
      by (intro expected_sets_distinct[OF dk]) simp
    from g have nr: "never_rejects e" and ne: "m \<noteq> []" by simp_all
    from smart_update_rebuild_good[OF nr pm ne d] obtain w' where
      "smart_update_rebuild e wd = Some (Inr True, w')"
      "ipsets w' = filter (\<lambda>(k, v). \<not> geoip_set_name k) (ipsets wd) @ expected_sets m"
      "chain_v4 w' = filter (\<lambda>r. \<not> rule_marked ''geoip-firewall'' r) (chain_v4 wd)
             @ generated_chain V4 (present w' V4 ALLOWED_COUNTRIES)
                 (present w' V4 (filter (\<lambda>c. c \<notin> set ALLOWED_COUNTRIES) (map fst m)))"
      "chain_v6 w' = filter (\<lambda>r. \<not> rule_marked ''geoip-firewall'' r) (chain_v6 wd)
             @ generated_chain V6 (present w' V6 ALLOWED_COUNTRIES)
                 (present w' V6 (filter (\<lambda>c. c \<notin> set ALLOWED_COUNTRIES) (map fst m)))"
      by (elim exE conjE)
    then show ?thesis
      unfolding su by (intro exI[of _ w']) (simp add: wd_def classify_generated_chain)
  qed
  from first second
  show "(\<forall>r w'. smart_update e w = Some (r, w') \<longrightarrow>
        \<not> list_ex network (events_since w w') \<and>
        mmdb_file w' = Some content \<and> last_check_file w' = last_check_file w \<and>
        hash_file w' = Some (case hash_file w of None \<Rightarrow> sha256_hex e content | Some h \<Rightarrow> h) \<and>
        (r = Inr True \<longrightarrow> ALL_COUNTRIES w' = map fst (parse_mmdb_to_country_ipranges e w))) \<and>
     (never_rejects e \<and> parse_mmdb_to_country_ipranges e w \<noteq> [] \<and>
      (\<forall>cc \<in> set (map fst (parse_mmdb_to_country_ipranges e w)). length cc = 2) \<longrightarrow>
        (\<exists>w'. smart_update e w = Some (Inr True, w') \<and>
           ipsets w' = filter (\<lambda>(k, v). \<not> geoip_set_name k) (ipsets w)
                       @ expected_sets (parse_mmdb_to_country_ipranges e w) \<and>
           chain_v4 w' = filter (\<lambda>r. \<not> rule_marked ''geoip-firewall'' r) (chain_v4 w)
             @ generated_chain V4 (present w' V4 ALLOWED_COUNTRIES)
                 (present w' V4 (filter (\<lambda>c. c \<notin> set ALLOWED_COUNTRIES)
                                    (map fst (parse_mmdb_to_country_ipranges e w)))) \<and>
           chain_v6 w' = filter (\<lambda>r. \<not> rule_marked ''geoip-firewall'' r) (chain_v6 w)
             @ generated_chain V6 (present w' V6 ALLOWED_COUNTRIES)
                 (present w' V6 (filter (\<lambda>c. c \<notin> set ALLOWED_COUNTRIES)
                                    (map fst (parse_mmdb_to_country_ipranges e w)))) \<and>
           map classify (chain_v4 w') = map classify (filter (\<lambda>r. \<not> rule_marked ''geoip-firewall'' r) (chain_v4 w))
             @ chain_order V4 (present w' V4 ALLOWED_COUNTRIES)
                 (present w' V4 (filter (\<lambda>c. c \<notin> set ALLOWED_COUNTRIES)
                                    (map fst (parse_mmdb_to_country_ipranges e w)))) \<and>
           map classify (chain_v6 w') = map classify (filter (\<lambda>r. \<not> rule_marked ''geoip-firewall'' r) (chain_v6 w))
             @ chain_order V6 (present w' V6 ALLOWED_COUNTRIES)
                 (present w' V6 (filter (\<lambda>c. c \<notin> set ALLOWED_COUNTRIES)
                                    (map fst (parse_mmdb_to_country_ipranges e w))))))"
    unfolding m_def[symmetric] by (intro conjI allI impI) auto
qed

lemma example_parse:
  "parse_mmdb_to_country_ipranges example_env (reboot_world\<lparr>hash_file := None\<rparr>) = example_ranges"
  by (simp add: parse_mmdb_to_country_ipranges_def example_env_def reboot_world_def steady_world_def
        example_records_def example_ranges_def)

lemma example_expected_sets:
  "expected_sets example_ranges =
     [(''country-KR'', [''1.0.0.0/24'']), (''country-KR-v6'', [''2001:db8::/32'']),
      (''country-US'', [''2.0.0.0/24''])]"
  by (simp add: expected_sets_def example_ranges_def country_groups_def Let_def is_ipv6_def
        set_name_v4_def set_name_v6_def)

theorem C4_witness:
  "ipset_count_of (fst (snd (run_cmd example_env IpsetListNames (reboot_world\<lparr>hash_file := None\<rparr>)))) = 0 \<and>
   mmdb_file (reboot_world\<lparr>hash_file := None\<rparr>) = Some ''old'' \<and>
   never_rejects example_env \<and>
   parse_mmdb_to_country_ipranges example_env (reboot_world\<lparr>hash_file := None\<rparr>) = example_ranges \<and>
   (\<exists>w'. smart_update example_env (reboot_world\<lparr>hash_file := None\<rparr>) = Some (Inr True, w') \<and>
      ipsets w' = [(''country-KR'', [''1.0.0.0/24'']), (''country-KR-v6'', [''2001:db8::/32'']),
                   (''country-US'', [''2.0.0.0/24''])] \<and>
      hash_file w' = Some ''#old'' \<and> mmdb_file w' = Some ''old'' \<and>
      \<not> list_ex network (events_since (reboot_world\<lparr>hash_file := None\<rparr>) w') \<and>
      map classify (chain_v4 w') =
        [OtherRule, StatefulAccept, LoopbackAccept,
         SourceAccept ''10.0.0.0/8'', SourceAccept ''172.16.0.0/12'',
         SourceAccept ''192.168.0.0/16'', SourceAccept ''169.254.0.0/16'',
         SetLog ''country-KR'', SetAccept ''country-KR'',
         SetLog ''country-US'', SetDrop ''country-US'',
         DefaultLog, UnconditionalDrop] \<and>
      map classify (chain_v6 w') =
        [StatefulAccept, LoopbackAccept, SourceAccept ''fc00::/7'', SourceAccept ''fe80::/10'',
         SetLog ''country-KR-v6'', SetAccept ''country-KR-v6'',
         DefaultLog, UnconditionalDrop])"
proof -
  let ?w = "reboot_world\<lparr>hash_file := None\<rparr>"
  have h1: "ipset_count_of (fst (snd (run_cmd example_env IpsetListNames ?w))) = 0"
    by (simp add: run_cmd_list_names example_env_def reboot_world_def steady_world_def
          ipset_count_of_def startswith_def)
  have h2: "mmdb_file ?w = Some ''old''"
    by (simp add: reboot_world_def steady_world_def)
  have h3: "parse_mmdb_to_country_ipranges example_env ?w \<noteq> []"
    by (simp add: example_parse example_ranges_def)
  have h4: "\<forall>cc \<in> set (map fst (parse_mmdb_to_country_ipranges example_env ?w)). length cc = 2"
    by (simp add: example_parse example_ranges_def)
  have old: "filter (\<lambda>(k, v). \<not> geoip_set_name k) (ipsets ?w) = []"
    by (simp add: reboot_world_def steady_world_def)
  have sha: "sha256_hex example_env ''old'' = ''#old''"
    by (simp add: example_env_def)
  note T = C4_reboot_recovery[of example_env ?w "''old''", rule_format, OF conjI[OF h1 h2]]
  from T[THEN conjunct2, rule_format, OF conjI[OF example_env_never_rejects conjI[OF h3 h4]]]
  obtain w' where r: "smart_update example_env ?w = Some (Inr True, w')"
    and i: "ipsets w' = filter (\<lambda>(k, v). \<not> geoip_set_name k) (ipsets ?w)
                       @ expected_sets (parse_mmdb_to_country_ipranges example_env ?w)"
    and k4: "map classify (chain_v4 w') =
               map classify (filter (\<lambda>r. \<not> rule_marked ''geoip-firewall'' r) (chain_v4 ?w))
               @ chain_order V4 (present w' V4 ALLOWED_COUNTRIES)
                   (present w' V4 (filter (\<lambda>c. c \<notin> set ALLOWED_COUNTRIES)
                      (map fst (parse_mmdb_to_country_ipranges example_env ?w))))"
    and k6: "map classify (chain_v6 w') =
               map classify (filter (\<lambda>r. \<not> rule_marked ''geoip-firewall'' r) (chain_v6 ?w))
               @ chain_order V6 (present w' V6 ALLOWED_COUNTRIES)
                   (present w' V6 (filter (\<lambda>c. c \<notin> set ALLOWED_COUNTRIES)
                      (map fst (parse_mmdb_to_country_ipranges example_env ?w))))"
    by (elim exE conjE)
  from T[THEN conjunct1, rule_format, OF r]
  have n: "\<not> list_ex network (events_since ?w w')" and f: "mmdb_file w' = Some ''old''"
    and h: "hash_file w' = Some (case hash_file ?w of None \<Rightarrow> sha256_hex example_env ''old'' | Some h \<Rightarrow> h)"
    by simp_all
  from h have h': "hash_file w' = Some ''#old''" by (simp add: sha)
  from i have i': "ipsets w' = [(''country-KR'', [''1.0.0.0/24'']), (''country-KR-v6'', [''2001:db8::/32'']),
                   (''country-US'', [''2.0.0.0/24''])]"
    unfolding old example_parse example_expected_sets by simp
  have p: "present w' V4 ALLOWED_COUNTRIES = [''KR'']" "present w' V6 ALLOWED_COUNTRIES = [''KR'']"
          "present w' V4 (filter (\<lambda>c. c \<notin> set ALLOWED_COUNTRIES) (map fst example_ranges)) = [''US'']"
          "present w' V6 (filter (\<lambda>c. c \<notin> set ALLOWED_COUNTRIES) (map fst example_ranges)) = []"
    by (simp_all add: present_def set_exists_def i' ALLOWED_COUNTRIES_def example_ranges_def
          set_name_v4_def set_name_v6_def)
  have oldc: "filter (\<lambda>r. \<not> rule_marked ''geoip-firewall'' r) (chain_v4 ?w) =
                [[''-p'', ''tcp'', ''--dport'', ''22'', ''-j'', ''ACCEPT'']]"
             "filter (\<lambda>r. \<not> rule_marked ''geoip-firewall'' r) (chain_v6 ?w) = []"
    by (simp_all add: reboot_world_def steady_world_def rule_marked_def str_in_def sublist_Cons_right)
  have k4': "map classify (chain_v4 w') =
        [OtherRule, StatefulAccept, LoopbackAccept,
         SourceAccept ''10.0.0.0/8'', SourceAccept ''172.16.0.0/12'',
         SourceAccept ''192.168.0.0/16'', SourceAccept ''169.254.0.0/16'',
         SetLog ''country-KR'', SetAccept ''country-KR'',
         SetLog ''country-US'', SetDrop ''country-US'',
         DefaultLog, UnconditionalDrop]"
    unfolding k4 example_parse p oldc
    by (simp add: chain_order_def country_set_def classify_def)
  have k6': "map classify (chain_v6 w') =
        [StatefulAccept, LoopbackAccept, SourceAccept ''fc00::/7'', SourceAccept ''fe80::/10'',
         SetLog ''country-KR-v6'', SetAccept ''country-KR-v6'',
         DefaultLog, UnconditionalDrop]"
    unfolding k6 example_parse p oldc
    by (simp add: chain_order_def country_set_def)
  from r i' h' f n k4' k6' have "\<exists>w'. smart_update example_env ?w = Some (Inr True, w') \<and>
      ipsets w' = [(''country-KR'', [''1.0.0.0/24'']), (''country-KR-v6'', [''2001:db8::/32'']),
                   (''country-US'', [''2.0.0.0/24''])] \<and>
      hash_file w' = Some ''#old'' \<and> mmdb_file w' = Some ''old'' \<and>
      \<not> list_ex network (events_since ?w w') \<and>
      map classify (chain_v4 w') =
        [OtherRule, StatefulAccept, LoopbackAccept,
         SourceAccept ''10.0.0.0/8'', SourceAccept ''172.16.0.0/12'',
         SourceAccept ''192.168.0.0/16'', SourceAccept ''169.254.0.0/16'',
         SetLog ''country-KR'', SetAccept ''country-KR'',
         SetLog ''country-US'', SetDrop ''country-US'',
         DefaultLog, UnconditionalDrop] \<and>
      map classify (chain_v6 w') =
        [StatefulAccept, LoopbackAccept, SourceAccept ''fc00::/7'', SourceAccept ''fe80::/10'',
         SetLog ''country-KR-v6'', SetAccept ''country-KR-v6'',
         DefaultLog, UnconditionalDrop]"
    by (intro exI[of _ w'] conjI)
  with h1 h2 example_env_never_rejects example_parse show ?thesis by (intro conjI)
qed

section \<open>Sets exist after a successful rebuild\<close>

lemma set_step_keeps_names:
  assumes "set_step (Kernel c True)"
  shows "set (map fst (ipsets w)) \<subseteq> set (map fst (ipsets (snd (snd (run_cmd e c w)))))"
proof (cases c)
  case (IpsetCreate n fam k)
  then show ?thesis by (auto simp: run_cmd_def)
next
  case (IpsetFlush n)
  then show ?thesis by (force simp: run_cmd_def image_iff)
next
  case (IpsetRestore adds)
  have "map fst (foldl add_entry sets adds) = map fst sets" for sets
    by (induction adds arbitrary: sets) (auto simp: case_prod_beta comp_def)
  then have "set (map fst (foldl add_entry (ipsets w) adds)) = set (map fst (ipsets w))" by simp
  with IpsetRestore show ?thesis by (simp add: run_cmd_def del: set_map)
qed (use assms in simp_all)

lemma run_checked_keeps_names:
  "list_all (\<lambda>c. set_step (Kernel c True)) cmds \<Longrightarrow>
     set (map fst (ipsets w)) \<subseteq> set (map fst (ipsets (snd (run_checked e cmds w))))"
proof (induction cmds arbitrary: w)
  case Nil
  show ?case by simp
next
  case (Cons c cs)
  from Cons.prems have c: "set_step (Kernel c True)" and cs: "list_all (\<lambda>c. set_step (Kernel c True)) cs"
    by simp_all
  obtain ok out w1 where r: "run_cmd e c w = (ok, out, w1)" by (cases "run_cmd e c w")
  from set_step_keeps_names[OF c, of w e] r
  have k: "set (map fst (ipsets w)) \<subseteq> set (map fst (ipsets w1))" by simp
  from Cons.IH[OF cs, of w1] k r show ?case by (cases ok) auto
qed

lemma group_commands_set_steps: "list_all (\<lambda>c. set_step (Kernel c True)) (concat (map group_commands gs))"
  by (auto simp: list_all_iff group_commands_def ipset_commands_def)

lemma groups_created:
  "run_checked e (concat (map group_commands gs)) w = (True, w') \<Longrightarrow>
     \<forall>g \<in> set gs. set_exists w' (fst g)"
proof (induction gs arbitrary: w)
  case Nil
  show ?case by simp
next
  case (Cons g gs)
  obtain n fam rs where g: "g = (n, fam, rs)" by (cases g)
  let ?rest = "[IpsetFlush n, IpsetRestore (map (\<lambda>ip. (n, ip)) rs)] @ concat (map group_commands gs)"
  have cmds: "concat (map group_commands (g # gs)) = IpsetCreate n fam (max_size (length rs)) # ?rest"
    by (simp add: g group_commands_def ipset_commands_def)
  obtain ok out w1 where r: "run_cmd e (IpsetCreate n fam (max_size (length rs))) w = (ok, out, w1)"
    by (cases "run_cmd e (IpsetCreate n fam (max_size (length rs))) w")
  from Cons.prems r have ok: "ok" and rest: "run_checked e ?rest w1 = (True, w')"
    unfolding cmds by (auto split: if_splits)
  from r ok have e1: "set_exists w1 n"
    by (auto simp: run_cmd_def set_exists_def split: if_splits)
  have "list_all (\<lambda>c. set_step (Kernel c True)) ?rest"
    using group_commands_set_steps[of gs] by simp
  from run_checked_keeps_names[OF this, of w1 e] rest e1
  have here: "set_exists w' n" by (auto simp: set_exists_def)
  obtain ok2 w2 where r2: "run_checked e [IpsetFlush n, IpsetRestore (map (\<lambda>ip. (n, ip)) rs)] w1 = (ok2, w2)"
    by (cases "run_checked e [IpsetFlush n, IpsetRestore (map (\<lambda>ip. (n, ip)) rs)] w1")
  from rest have "run_checked e (concat (map group_commands gs)) w2 = (True, w')"
    unfolding run_checked_append r2 by (auto split: if_splits)
  from Cons.IH[OF this] here g show ?case by simp
qed

section \<open>Two runs in a row\<close>

lemma dict_append_ranges:
  "\<forall>kv \<in> set d. snd kv \<noteq> [] \<Longrightarrow> \<forall>kv \<in> set (dict_append d k v). snd kv \<noteq> []"
  by (induction d k v rule: dict_append.induct) auto

lemma add_network_ranges:
  "\<forall>kv \<in> set d. snd kv \<noteq> [] \<Longrightarrow> \<forall>kv \<in> set (add_network d record). snd kv \<noteq> []"
  by (cases "(d, record)" rule: add_network.cases) (simp_all add: dict_append_ranges)

lemma foldl_add_network_ranges:
  "\<forall>kv \<in> set d. snd kv \<noteq> [] \<Longrightarrow> \<forall>kv \<in> set (foldl add_network d records). snd kv \<noteq> []"
proof (induction records arbitrary: d)
  case Nil
  then show ?case by simp
next
  case (Cons a records)
  from add_network_ranges[OF Cons.prems] have "\<forall>kv \<in> set (add_network d a). snd kv \<noteq> []" .
  from Cons.IH[OF this] show ?case by simp
qed

lemma parse_ranges_nonempty: "\<forall>kv \<in> set (parse_mmdb_to_country_ipranges e w). snd kv \<noteq> []"
proof (cases "maxminddb_installed e")
  case False
  then show ?thesis by (simp add: parse_mmdb_to_country_ipranges_def)
next
  case True
  show ?thesis
  proof (cases "mmdb_file w")
    case None
    with True show ?thesis by (simp add: parse_mmdb_to_country_ipranges_def)
  next
    case content: (Some content)
    show ?thesis
    proof (cases "read_mmdb e content")
      case None
      with True content show ?thesis by (simp add: parse_mmdb_to_country_ipranges_def)
    next
      case (Some records)
      with True content have "parse_mmdb_to_country_ipranges e w = foldl add_network [] records"
        by (simp add: parse_mmdb_to_country_ipranges_def)
      then show ?thesis using foldl_add_network_ranges[of "[]" records] by simp
    qed
  qed
qed

lemma country_groups_nonempty: "snd entry \<noteq> [] \<Longrightarrow> country_groups entry \<noteq> []"
proof -
  assume a: "snd entry \<noteq> []"
  then obtain x xs where "snd entry = x # xs" by (cases "snd entry") auto
  then show ?thesis by (cases "is_ipv6 x") (simp_all add: country_groups_def Let_def)
qed

lemma country_groups_country:
  "g \<in> set (country_groups entry) \<Longrightarrow> startswith (fst g) ''country-''"
  by (auto simp: country_groups_def Let_def startswith_def set_name_v4_def set_name_v6_def
        split: if_splits)

lemma rebuild_leaves_country_set:
  assumes run: "smart_update_rebuild e w = Some (Inr True, w')"
  shows "ipset_count_of (map fst (ipsets w')) \<noteq> 0"
proof -
  define m where "m = parse_mmdb_to_country_ipranges e w"
  from run have ne: "m \<noteq> []" by (auto simp: smart_update_rebuild_def m_def)
  from run ne obtain cleaned wa where c: "cleanup_existing_ipsets e w = Some (cleaned, wa)"
    by (cases "cleanup_existing_ipsets e w") (auto simp: smart_update_rebuild_def m_def)
  obtain ok2 wb where a: "apply_native_ipset e m wa = (ok2, wb)" by (cases "apply_native_ipset e m wa")
  obtain ok3 wc where s: "setup_firewall_rules e ALLOWED_COUNTRIES wb = (ok3, wc)"
    by (cases "setup_firewall_rules e ALLOWED_COUNTRIES wb")
  from run ne c a s have ok2: "ok2" and ok3: "ok3" and w': "w' = wc"
    by (auto simp: smart_update_rebuild_def m_def[symmetric] split: if_splits bool.splits)
  from a ok2 have rc: "run_checked e (concat (map group_commands (concat (map country_groups m))))
                         (wa\<lparr>ALL_COUNTRIES := map fst m\<rparr>) = (True, wb)"
    by (simp add: apply_native_ipset_run_checked all_commands_groups)
  from ne obtain entry rest where me: "m = entry # rest" by (cases m) auto
  have "snd entry \<noteq> []" using parse_ranges_nonempty[of e w] me by (simp add: m_def[symmetric])
  then obtain g gs where g: "country_groups entry = g # gs"
    using country_groups_nonempty[of entry] by (cases "country_groups entry") auto
  then have gin: "g \<in> set (concat (map country_groups m))" by (simp add: me)
  from groups_created[OF rc] gin have ex: "set_exists wb (fst g)" by blast
  have "g \<in> set (country_groups entry)" using g by simp
  then have st: "startswith (fst g) ''country-''" by (rule country_groups_country)
  have "ipsets wc = ipsets wb"
    using setup_firewall_rules_built[of wb e ALLOWED_COUNTRIES] s by (simp add: rules_built_def)
  with ex w' have "fst g \<in> set (map fst (ipsets w'))" by (simp add: set_exists_def)
  with st have "fst g \<in> set (filter (\<lambda>s. startswith s ''country-'') (map fst (ipsets w')))"
    by (simp del: set_map)
  then have "filter (\<lambda>s. startswith s ''country-'') (map fst (ipsets w')) \<noteq> []"
    by (metis empty_iff empty_set)
  then show ?thesis unfolding ipset_count_of_def length_0_conv .
qed

lemma check_remote_changed:
  "check_remote_file_changed e w = (Inr True, w') \<Longrightarrow>
     \<exists>info. remote_check_info e = Some info \<and> last_check_file w' = Some info"
  by (auto simp: check_remote_file_changed_def remote_check_info_def Let_def
           split: head_result.splits option.splits if_splits)

lemma check_remote_same_answer:
  "head_response e2 = head_response e \<Longrightarrow> last_check_file w2 = last_check_file w \<Longrightarrow>
     fst (check_remote_file_changed e2 w2) = fst (check_remote_file_changed e w)"
  by (simp add: check_remote_file_changed_def Let_def split: head_result.splits option.splits)

lemma check_remote_round_trip:
  "head_response e2 = head_response e \<Longrightarrow> remote_check_info e = Some info \<Longrightarrow>
   strip info = info \<Longrightarrow> last_check_file w2 = Some info \<Longrightarrow>
     fst (check_remote_file_changed e2 w2) = Inr False"
  by (auto simp: check_remote_file_changed_def remote_check_info_def Let_def
           split: head_result.splits option.splits)

lemma download_leaves_database:
  "download_dbip_database e w = (True, w') \<Longrightarrow> mmdb_file w' \<noteq> None"
  by (auto simp: download_dbip_database_def Let_def split: download_result.splits)

text \<open>
  A run that starts in the steady state and returns \<open>True\<close> leaves a country set and the
  database behind, and the metadata record is either the one that compared equal or
  the one the server reported.
\<close>

lemma steady_run_true:
  assumes cnt: "ipset_count_of (fst (snd (run_cmd e IpsetListNames w))) \<noteq> 0"
    and db: "mmdb_file w \<noteq> None"
    and run: "smart_update e w = Some (Inr True, w1)"
  shows "ipset_count_of (map fst (ipsets w1)) \<noteq> 0 \<and> mmdb_file w1 \<noteq> None \<and>
         (fst (check_remote_file_changed e w) = Inr False \<and> last_check_file w1 = last_check_file w \<or>
          (\<exists>info. remote_check_info e = Some info \<and> last_check_file w1 = Some info))"
proof -
  from cnt have listed: "\<not> kernel_rejects e (length (trace w)) IpsetListNames"
    by (auto simp: run_cmd_list_names ipset_count_of_empty split: if_splits)
  with cnt have cnt0: "ipset_count_of (map fst (ipsets w)) \<noteq> 0"
    by (simp add: run_cmd_list_names ipset_count_of_append)
  define w0 where "w0 = w\<lparr>trace := trace w @ [Kernel IpsetListNames True]\<rparr>"
  have rc: "run_cmd e IpsetListNames w = (True, map fst (ipsets w) @ [''''], w0)"
    using listed by (simp add: run_cmd_list_names w0_def)
  obtain r1 w2 where c1: "check_remote_file_changed e w0 = (r1, w2)"
    by (cases "check_remote_file_changed e w0")
  have det: "smart_update_detect e w =
       (case check_remote_file_changed e w0 of
              (Inl err, w2) \<Rightarrow> (Stop (Inl err), w2)
            | (Inr False, w2) \<Rightarrow> (Stop (Inr True), w2)
            | (Inr True, w2) \<Rightarrow>
                (case download_dbip_database e w2 of
                   (False, w3) \<Rightarrow> (Stop (Inr False), w3)
                 | (True, w3) \<Rightarrow>
                     (case check_file_hash_changed e w3 of
                        (Inl err, w4) \<Rightarrow> (Stop (Inl err), w4)
                      | (Inr False, w4) \<Rightarrow> (Stop (Inr True), w4)
                      | (Inr True, w4) \<Rightarrow> (Proceed, w4))))"
    using cnt0 db by (simp add: smart_update_detect_def rc ipset_count_of_append)
  have f0: "ipsets w0 = ipsets w" "mmdb_file w0 = mmdb_file w" "last_check_file w0 = last_check_file w"
    by (simp_all add: w0_def)
  from check_remote_frame[OF c1] have f2: "ipsets w2 = ipsets w" "mmdb_file w2 = mmdb_file w"
    by (simp_all add: same_kernel_def f0)
  have ans: "fst (check_remote_file_changed e w) = r1"
    using check_remote_same_answer[of e e w0 w] c1 by (simp add: f0)
  show ?thesis
  proof (cases r1)
    case (Inl err)
    with run det c1 show ?thesis by (simp add: smart_update_def)
  next
    case (Inr changed)
    show ?thesis
    proof (cases changed)
      case False
      with Inr run det c1 have w1: "w1 = w2" by (simp add: smart_update_def)
      from check_remote_unchanged[of e w0] c1 Inr False have "w2 = w0\<lparr>trace := trace w0 @ [NetHead]\<rparr>"
        by simp
      then have "last_check_file w2 = last_check_file w" by (simp add: f0)
      with w1 f2 cnt0 db ans Inr False show ?thesis by simp
    next
      case True
      with Inr c1 have c1': "check_remote_file_changed e w0 = (Inr True, w2)" by simp
      from check_remote_changed[OF c1'] obtain info where
        info: "remote_check_info e = Some info" "last_check_file w2 = Some info" by blast
      obtain ok w3 where d: "download_dbip_database e w2 = (ok, w3)"
        by (cases "download_dbip_database e w2")
      from download_frame[OF d] have f3: "ipsets w3 = ipsets w" "last_check_file w3 = Some info"
        by (simp_all add: same_kernel_def f2 info)
      show ?thesis
      proof (cases ok)
        case False
        with run det c1' d show ?thesis by (simp add: smart_update_def)
      next
        case ok: True
        with d have d': "download_dbip_database e w2 = (True, w3)" by simp
        from download_leaves_database[OF d'] have m3: "mmdb_file w3 \<noteq> None" .
        obtain r3 w4 where h: "check_file_hash_changed e w3 = (r3, w4)"
          by (cases "check_file_hash_changed e w3")
        from check_hash_frame[OF h] have f4: "ipsets w4 = ipsets w" "last_check_file w4 = Some info"
          "mmdb_file w4 \<noteq> None"
          by (simp_all add: same_kernel_def f3 m3)
        show ?thesis
        proof (cases r3)
          case (Inl err)
          with run det c1' d' h show ?thesis by (simp add: smart_update_def)
        next
          case r3: (Inr changed3)
          show ?thesis
          proof (cases changed3)
            case False
            with r3 run det c1' d' h have "w1 = w4" by (simp add: smart_update_def)
            with f4 cnt0 info show ?thesis by simp
          next
            case True
            with r3 run det c1' d' h have rb: "smart_update_rebuild e w4 = Some (Inr True, w1)"
              by (simp add: smart_update_def)
            from smart_update_rebuild_frame[OF rb] have "same_files w4 w1" by simp
            with f4 have "mmdb_file w1 \<noteq> None" "last_check_file w1 = Some info"
              by (simp_all add: same_files_def)
            with rebuild_leaves_country_set[OF rb] info show ?thesis by simp
          qed
        qed
      qed
    qed
  qed
qed

subsection \<open>A reboot with a stale metadata record, and the run after it\<close>

lemma example_env_parse:
  "mmdb_file w = Some content \<Longrightarrow> content \<noteq> ''bad'' \<Longrightarrow>
     parse_mmdb_to_country_ipranges example_env w = example_ranges"
  by (simp add: parse_mmdb_to_country_ipranges_def example_env_def example_records_def
        example_ranges_def)

lemma example_sets_distinct: "distinct (map fst (expected_sets example_ranges))"
  by (simp add: example_expected_sets)

lemma example_create_command:
  "IpsetCreate ''country-KR'' V4 1 \<in> set (concat (map country_commands example_ranges))"
  by (simp add: example_ranges_def country_commands_def ipset_commands_def Let_def is_ipv6_def
        set_name_v4_def max_size_def)

lemma events_since_later:
  assumes "trace wd = trace w @ evs" and "ev \<in> set (events_since wd w')"
  shows "ev \<in> set (events_since w w')"
proof -
  have "length (trace w) \<le> length (trace wd)" by (simp add: assms(1))
  from set_drop_subset_set_drop[OF this, of "trace w'"] assms(2) show ?thesis
    unfolding events_since_def by blast
qed

lemma stale_reboot_two_runs:
  "\<exists>w1 w2.
     smart_update example_env stale_reboot_world = Some (Inr True, w1) \<and>
     ipsets w1 = [(''country-KR'', [''1.0.0.0/24'']), (''country-KR-v6'', [''2001:db8::/32'']),
                  (''country-US'', [''2.0.0.0/24''])] \<and>
     mmdb_file w1 = Some ''old'' \<and>
     smart_update example_env w1 = Some (Inr True, w2) \<and>
     Kernel (IpsetCreate ''country-KR'' V4 1) True \<in> set (events_since w1 w2)"
proof -
  let ?W = "stale_reboot_world"
  have h1: "ipset_count_of (fst (snd (run_cmd example_env IpsetListNames ?W))) = 0"
    by (simp add: run_cmd_list_names example_env_def stale_reboot_world_def reboot_world_def
          steady_world_def ipset_count_of_def startswith_def)
  have h2: "mmdb_file ?W = Some ''old''"
    by (simp add: stale_reboot_world_def reboot_world_def steady_world_def)
  define wd where "wd = ?W\<lparr>hash_file := Some (case hash_file ?W of None \<Rightarrow> sha256_hex example_env ''old'' | Some h \<Rightarrow> h),
              trace := trace ?W @ [Kernel IpsetListNames (fst (run_cmd example_env IpsetListNames ?W))]\<rparr>"
  have det: "smart_update_detect example_env ?W = (Proceed, wd)"
    unfolding wd_def by (rule reboot_detect[OF h1 h2])
  have fd: "mmdb_file wd = Some ''old''" "hash_file wd = Some ''#old''"
           "last_check_file wd = Some ''Sun|41''" "ipsets wd = []"
    by (simp_all add: wd_def stale_reboot_world_def reboot_world_def steady_world_def)
  have pd: "parse_mmdb_to_country_ipranges example_env wd = example_ranges"
    by (rule example_env_parse[OF fd(1)]) simp
  have ne: "example_ranges \<noteq> []" by (simp add: example_ranges_def)
  from smart_update_rebuild_good[OF example_env_never_rejects pd ne example_sets_distinct]
  obtain w1 where r1: "smart_update_rebuild example_env wd = Some (Inr True, w1)"
    and i1: "ipsets w1 = filter (\<lambda>(k, v). \<not> geoip_set_name k) (ipsets wd) @ expected_sets example_ranges"
    by (elim exE conjE)
  from det r1 have run1: "smart_update example_env ?W = Some (Inr True, w1)"
    by (simp add: smart_update_def)
  from i1 have i1': "ipsets w1 = [(''country-KR'', [''1.0.0.0/24'']), (''country-KR-v6'', [''2001:db8::/32'']),
                  (''country-US'', [''2.0.0.0/24''])]"
    by (simp add: fd example_expected_sets)
  from smart_update_rebuild_frame[OF r1] have "same_files wd w1" by simp
  with fd have f1: "mmdb_file w1 = Some ''old''" "hash_file w1 = Some ''#old''"
                   "last_check_file w1 = Some ''Sun|41''"
    by (simp_all add: same_files_def)
  define wd2 where "wd2 = w1\<lparr>mmdb_file := Some ''new'', hash_file := Some ''#new'',
                              last_check_file := Some ''Mon|42'',
                              trace := trace w1 @ [Kernel IpsetListNames True, NetHead, NetDownload]\<rparr>"
  have rc: "run_cmd example_env IpsetListNames w1 =
              (True, map fst (ipsets w1) @ [''''], w1\<lparr>trace := trace w1 @ [Kernel IpsetListNames True]\<rparr>)"
    by (simp add: run_cmd_list_names example_env_def)
  have cnt: "ipset_count_of (map fst (ipsets w1) @ ['''']) \<noteq> 0"
    by (simp add: i1' ipset_count_of_def startswith_def)
  have chk: "check_remote_file_changed example_env (w1\<lparr>trace := trace w1 @ [Kernel IpsetListNames True]\<rparr>) =
               (Inr True, w1\<lparr>last_check_file := Some ''Mon|42'',
                             trace := trace w1 @ [Kernel IpsetListNames True, NetHead]\<rparr>)"
    by (simp add: check_remote_file_changed_def example_env_def f1 check_info_of_def header_get_def
          strip_def is_space_def Let_def)
  have dl: "download_dbip_database example_env
              (w1\<lparr>last_check_file := Some ''Mon|42'',
                  trace := trace w1 @ [Kernel IpsetListNames True, NetHead]\<rparr>) =
            (True, w1\<lparr>mmdb_file := Some ''new'', last_check_file := Some ''Mon|42'',
                      trace := trace w1 @ [Kernel IpsetListNames True, NetHead, NetDownload]\<rparr>)"
    by (simp add: download_dbip_database_def example_env_def Let_def)
  have hs: "check_file_hash_changed example_env
              (w1\<lparr>mmdb_file := Some ''new'', last_check_file := Some ''Mon|42'',
                  trace := trace w1 @ [Kernel IpsetListNames True, NetHead, NetDownload]\<rparr>) =
            (Inr True, wd2)"
    by (simp add: check_file_hash_changed_def example_env_def f1 strip_def is_space_def Let_def wd2_def)
  have det2: "smart_update_detect example_env w1 = (Proceed, wd2)"
    using cnt unfolding smart_update_detect_def Let_def rc by (simp add: f1 chk dl hs)
  have f2: "mmdb_file wd2 = Some ''new''" by (simp add: wd2_def)
  have p2: "parse_mmdb_to_country_ipranges example_env wd2 = example_ranges"
    by (rule example_env_parse[OF f2]) simp
  from smart_update_rebuild_good[OF example_env_never_rejects p2 ne example_sets_distinct]
  obtain w2 where r2: "smart_update_rebuild example_env wd2 = Some (Inr True, w2)"
    and ev: "\<forall>c \<in> set (concat (map country_commands example_ranges)).
               Kernel c True \<in> set (events_since wd2 w2)"
    by (elim exE conjE)
  from det2 r2 have run2: "smart_update example_env w1 = Some (Inr True, w2)"
    by (simp add: smart_update_def)
  from ev example_create_command
  have "Kernel (IpsetCreate ''country-KR'' V4 1) True \<in> set (events_since wd2 w2)" by blast
  moreover have "trace wd2 = trace w1 @ [Kernel IpsetListNames True, NetHead, NetDownload]"
    by (simp add: wd2_def)
  ultimately have "Kernel (IpsetCreate ''country-KR'' V4 1) True \<in> set (events_since w1 w2)"
    by (rule events_since_later[rotated])
  with run1 i1' f1(1) run2 show ?thesis by (intro exI[of _ w1] exI[of _ w2] conjI)
qed

section \<open>Idempotence\<close>

text \<open>
  After a reboot the database on disk is reused without asking the server, so a
  metadata record that is out of date stays out of date. The run succeeds; the run
  after it, with the same server answer and the same files, finds the record changed,
  downloads, finds a new hash and rebuilds: it creates the set \<^verbatim>\<open>country-KR\<close> again.
\<close>

theorem C9_counterexample:
  "smart_update example_env stale_reboot_world =
     Some (Inr True, world_after example_env stale_reboot_world) \<and>
   smart_update example_env (world_after example_env stale_reboot_world) =
     Some (Inr True, world_after example_env (world_after example_env stale_reboot_world)) \<and>
   Kernel (IpsetCreate ''country-KR'' V4 1) True
     \<in> set (events_since (world_after example_env stale_reboot_world)
                (world_after example_env (world_after example_env stale_reboot_world))) \<and>
   list_ex mutating (events_since (world_after example_env stale_reboot_world)
                      (world_after example_env (world_after example_env stale_reboot_world)))"
proof -
  from stale_reboot_two_runs obtain w1 w2 where
    r1: "smart_update example_env stale_reboot_world = Some (Inr True, w1)"
    and r2: "smart_update example_env w1 = Some (Inr True, w2)"
    and ev: "Kernel (IpsetCreate ''country-KR'' V4 1) True \<in> set (events_since w1 w2)"
    by (elim exE conjE)
  have a1: "world_after example_env stale_reboot_world = w1" by (simp add: world_after_def r1)
  have a2: "world_after example_env w1 = w2" by (simp add: world_after_def r2)
  have "mutating (Kernel (IpsetCreate ''country-KR'' V4 1) True)" by simp
  with ev have "list_ex mutating (events_since w1 w2)" unfolding list_ex_iff by (rule bexI[rotated])
  with r1 r2 ev show ?thesis unfolding a1 a2 by (intro conjI)
qed

text \<open>
  C9. Idempotence holds for a run that starts in the steady state. When the listing
  shows a country set and the database file exists, the run returns \<open>True\<close>, and the
  metadata record the server reports has no white space at its ends, then the next
  run, started in the world the first one left, with the same answer of the server and
  a listing that works, returns \<open>True\<close> after the listing and the HEAD request alone:
  no download, no command on an address set or on a rule chain, and sets, chains and
  files are what they were.
\<close>

theorem C9_steady_state_idempotent:
  assumes steady: "ipset_count_of (fst (snd (run_cmd e IpsetListNames w))) \<noteq> 0"
    and db: "mmdb_file w \<noteq> None"
    and first: "smart_update e w = Some (Inr True, w1)"
    and remote: "head_response e2 = head_response e"
    and plain: "map_option strip (remote_check_info e) = remote_check_info e"
    and listed: "\<not> kernel_rejects e2 (length (trace w1)) IpsetListNames"
  shows "\<exists>w2. smart_update e2 w1 = Some (Inr True, w2) \<and>
           same_kernel w1 w2 \<and> same_files w1 w2 \<and>
           events_since w1 w2 = [Kernel IpsetListNames True, NetHead] \<and>
           list_all (\<lambda>ev. ev \<noteq> NetDownload \<and> \<not> mutating ev) (events_since w1 w2)"
proof -
  from steady_run_true[OF steady db first]
  have cnt: "ipset_count_of (map fst (ipsets w1)) \<noteq> 0" and db1: "mmdb_file w1 \<noteq> None"
    and rec: "fst (check_remote_file_changed e w) = Inr False \<and> last_check_file w1 = last_check_file w \<or>
              (\<exists>info. remote_check_info e = Some info \<and> last_check_file w1 = Some info)"
    by simp_all
  from cnt have sets: "\<exists>n \<in> set (map fst (ipsets w1)). startswith n ''country-''"
    by (auto simp: ipset_count_of_def filter_empty_conv)
  from rec have unchanged: "fst (check_remote_file_changed e2 w1) = Inr False"
  proof
    assume "fst (check_remote_file_changed e w) = Inr False \<and> last_check_file w1 = last_check_file w"
    with check_remote_same_answer[OF remote, of w1 w] show ?thesis by simp
  next
    assume "\<exists>info. remote_check_info e = Some info \<and> last_check_file w1 = Some info"
    then obtain info where i: "remote_check_info e = Some info" "last_check_file w1 = Some info"
      by blast
    with plain have "strip info = info" by simp
    from check_remote_round_trip[OF remote i(1) this i(2)] show ?thesis .
  qed
  from steady_state_unchanged[OF sets listed db1 unchanged] show ?thesis
    by (simp add: same_kernel_def same_files_def events_since_def)
qed

theorem C9_witness:
  "ipset_count_of (fst (snd (run_cmd example_env IpsetListNames
      (world_after example_env stale_reboot_world)))) = 3 \<and>
   mmdb_file (world_after example_env stale_reboot_world) = Some ''old'' \<and>
   smart_update example_env (world_after example_env stale_reboot_world) =
     Some (Inr True, world_after example_env (world_after example_env stale_reboot_world)) \<and>
   remote_check_info example_env = Some ''Mon|42'' \<and> strip ''Mon|42'' = ''Mon|42'' \<and>
   (\<exists>w3. smart_update example_env (world_after example_env (world_after example_env stale_reboot_world)) =
            Some (Inr True, w3) \<and>
         same_kernel (world_after example_env (world_after example_env stale_reboot_world)) w3 \<and>
         same_files (world_after example_env (world_after example_env stale_reboot_world)) w3 \<and>
         events_since (world_after example_env (world_after example_env stale_reboot_world)) w3 =
           [Kernel IpsetListNames True, NetHead])"
proof -
  from stale_reboot_two_runs obtain w1 w2 where
    r1: "smart_update example_env stale_reboot_world = Some (Inr True, w1)"
    and i1: "ipsets w1 = [(''country-KR'', [''1.0.0.0/24'']), (''country-KR-v6'', [''2001:db8::/32'']),
                  (''country-US'', [''2.0.0.0/24''])]"
    and m1: "mmdb_file w1 = Some ''old''"
    and r2: "smart_update example_env w1 = Some (Inr True, w2)"
    by (elim exE conjE)
  have a1: "world_after example_env stale_reboot_world = w1" by (simp add: world_after_def r1)
  have a2: "world_after example_env w1 = w2" by (simp add: world_after_def r2)
  have c: "ipset_count_of (fst (snd (run_cmd example_env IpsetListNames w1))) = 3"
    by (simp add: run_cmd_list_names example_env_def i1 ipset_count_of_def startswith_def)
  then have c0: "ipset_count_of (fst (snd (run_cmd example_env IpsetListNames w1))) \<noteq> 0" by simp
  from m1 have d: "mmdb_file w1 \<noteq> None" by simp
  have info: "remote_check_info example_env = Some ''Mon|42''"
    by (simp add: remote_check_info_def example_env_def check_info_of_def header_get_def)
  have st: "strip ''Mon|42'' = ''Mon|42''" by (simp add: strip_def is_space_def)
  have plain: "map_option strip (remote_check_info example_env) = remote_check_info example_env"
    by (simp add: info st)
  have listed: "\<not> kernel_rejects example_env (length (trace w2)) IpsetListNames"
    by (simp add: example_env_def)
  from C9_steady_state_idempotent[OF c0 d r2 refl plain listed]
  obtain w3 where "smart_update example_env w2 = Some (Inr True, w3)" "same_kernel w2 w3"
    "same_files w2 w3" "events_since w2 w3 = [Kernel IpsetListNames True, NetHead]"
    by (elim exE conjE)
  then have "\<exists>w3. smart_update example_env w2 = Some (Inr True, w3) \<and> same_kernel w2 w3 \<and>
               same_files w2 w3 \<and> events_since w2 w3 = [Kernel IpsetListNames True, NetHead]"
    by (intro exI[of _ w3] conjI)
  with c m1 r2 info st show ?thesis unfolding a1 a2 by (intro conjI)
qed

end
